theory Spec2Isabelle
  imports Main "HOL-Library.Char_ord" "HOL-Library.List_Lexorder" "HOL-Library.Sublist"
begin

section \<open>Python values and library operations used by \<open>annotate.py\<close>\<close>

text \<open>
  Text is a list of characters read as code points below 256; \<open>Char_ord\<close> and
  \<open>List_Lexorder\<close> order strings by code point, as Python compares \<open>str\<close>.
  Text with code points from 256 on is outside this model.
\<close>

datatype error = TypeError | IndexError | RecursionError

text \<open>\<open>str.lower()\<close> on code points below 256: the ASCII capitals and the Latin-1
  capitals (all of 0xC0..0xDE but the multiplication sign 0xD7) move up by 32.\<close>

definition lower_char :: "char \<Rightarrow> char" where
  "lower_char c =
     (let n = (of_char c :: nat)
      in if (65 \<le> n \<and> n \<le> 90) \<or> (192 \<le> n \<and> n \<le> 222 \<and> n \<noteq> 215)
         then char_of (n + 32) else c)"

definition py_lower :: "string \<Rightarrow> string" where
  "py_lower s = map lower_char s"

text \<open>\<open>str.isspace()\<close> on code points below 256: TAB..CR, FS..US, space, NEL, NBSP.\<close>

definition is_space :: "char \<Rightarrow> bool" where
  "is_space c =
     (let n = (of_char c :: nat)
      in (9 \<le> n \<and> n \<le> 13) \<or> (28 \<le> n \<and> n \<le> 32) \<or> n = 133 \<or> n = 160)"

definition py_strip :: "string \<Rightarrow> string" where
  "py_strip s = rev (dropWhile is_space (rev (dropWhile is_space s)))"

definition startswith :: "string \<Rightarrow> string \<Rightarrow> bool" where
  "startswith s p = prefix p s"

definition endswith :: "string \<Rightarrow> string \<Rightarrow> bool" where
  "endswith s p = suffix p s"

text \<open>\<open>p in s\<close> on strings: \<open>p\<close> occurs in \<open>s\<close> as a contiguous run.\<close>

definition contains :: "string \<Rightarrow> string \<Rightarrow> bool" where
  "contains s p = sublist p s"

text \<open>\<open>sep.join(xs)\<close>.\<close>

fun py_join :: "string \<Rightarrow> string list \<Rightarrow> string" where
  "py_join sep [] = []"
| "py_join sep [x] = x"
| "py_join sep (x # y # ys) = x @ sep @ py_join sep (y # ys)"

text \<open>\<open>xs[-1]\<close> raises \<open>IndexError\<close> on an empty list.\<close>

definition py_last :: "'a list \<Rightarrow> error + 'a" where
  "py_last xs = (if xs = [] then Inl IndexError else Inr (last xs))"

section \<open>\<open>HardcodedExplainer\<close>\<close>

text \<open>\<open>_build_explanation_map\<close>: the dictionary literal, in source order (its keys are
  pairwise distinct, so \<open>map_of\<close> is the dictionary lookup).\<close>

definition explanations :: "(string \<times> string) list" where
  "explanations = [
   (''FunctionDecl'', ''declares a function with its signature and body''),
   (''CXXMethodDecl'', ''declares a class method or member function''),
   (''CXXConstructorDecl'', ''declares a class constructor''),
   (''CXXDestructorDecl'', ''declares a class destructor''),
   (''CXXRecordDecl'', ''declares a class, struct, or union type''),
   (''ClassTemplateDecl'', ''declares a class template''),
   (''VarDecl'', ''declares a variable with optional initialization''),
   (''FieldDecl'', ''declares a class member variable or field''),
   (''ParmVarDecl'', ''declares a function parameter''),
   (''NamespaceDecl'', ''declares or opens a namespace''),
   (''UsingDecl'', ''brings a name from another namespace into scope''),
   (''TypedefDecl'', ''creates a type alias using typedef''),
   (''EnumDecl'', ''declares an enumeration type''),
   (''EnumConstantDecl'', ''declares an enumeration constant''),
   (''CompoundStmt'', ''represents a block of statements enclosed in braces {}''),
   (''IfStmt'', ''represents an if conditional statement''),
   (''ForStmt'', ''represents a traditional for loop''),
   (''WhileStmt'', ''represents a while loop''),
   (''CXXForRangeStmt'', ''represents a range-based for loop (C++11)''),
   (''SwitchStmt'', ''represents a switch statement for multi-way branching''),
   (''CaseStmt'', ''represents a case label in a switch statement''),
   (''DefaultStmt'', ''represents the default case in a switch statement''),
   (''ReturnStmt'', ''returns a value from a function''),
   (''BreakStmt'', ''breaks out of a loop or switch statement''),
   (''ContinueStmt'', ''continues to the next iteration of a loop''),
   (''DeclStmt'', ''represents a declaration statement''),
   (''ExprStmt'', ''represents an expression used as a statement''),
   (''NullStmt'', ''represents an empty statement (just a semicolon)''),
   (''DoStmt'', ''represents a do-while loop''),
   (''GotoStmt'', ''represents a goto statement''),
   (''LabelStmt'', ''represents a labeled statement''),
   (''BinaryOperator'', ''performs a binary operation (e.g., +, -, ==, &&)''),
   (''UnaryOperator'', ''performs a unary operation (e.g., ++, --, !, ~)''),
   (''ConditionalOperator'', ''represents the ternary operator (condition ? true : false)''),
   (''CallExpr'', ''represents a function call''),
   (''CXXOperatorCallExpr'', ''represents an overloaded operator call in C++''),
   (''CXXMemberCallExpr'', ''represents a call to a class member function''),
   (''MemberExpr'', ''accesses a member of a struct/class (e.g., obj.member)''),
   (''ArraySubscriptExpr'', ''accesses an array element using [] operator''),
   (''DeclRefExpr'', ''references a previously declared variable or function''),
   (''IntegerLiteral'', ''represents an integer constant (e.g., 42, 0xFF)''),
   (''FloatingLiteral'', ''represents a floating-point constant (e.g., 3.14)''),
   (''StringLiteral'', ''represents a string literal (e.g., \"hello\")''),
   (''CharacterLiteral'', ''represents a character literal (e.g., 'a')''),
   (''CXXBoolLiteralExpr'', ''represents a boolean literal (true or false)''),
   (''CXXNullPtrLiteralExpr'', ''represents a nullptr literal''),
   (''AssignmentOperator'', ''assigns a value to a variable (=, +=, -=, etc.)''),
   (''CompoundAssignOperator'', ''performs compound assignment (+=, -=, *=, etc.)''),
   (''CXXNewExpr'', ''allocates memory using the new operator''),
   (''CXXDeleteExpr'', ''deallocates memory using the delete operator''),
   (''CXXThisExpr'', ''represents the 'this' pointer in a class method''),
   (''CXXThrowExpr'', ''throws an exception''),
   (''CXXTryStmt'', ''represents a try-catch block for exception handling''),
   (''CXXCatchStmt'', ''represents a catch block in exception handling''),
   (''CXXConstructExpr'', ''constructs an object using a constructor''),
   (''CXXTemporaryObjectExpr'', ''creates a temporary object''),
   (''CXXFunctionalCastExpr'', ''performs a functional-style cast''),
   (''CXXStaticCastExpr'', ''performs a static_cast''),
   (''CXXDynamicCastExpr'', ''performs a dynamic_cast''),
   (''CXXReinterpretCastExpr'', ''performs a reinterpret_cast''),
   (''CXXConstCastExpr'', ''performs a const_cast''),
   (''ImplicitCastExpr'', ''performs an implicit type conversion''),
   (''CStyleCastExpr'', ''performs a C-style cast''),
   (''ParenExpr'', ''represents parenthesized expression''),
   (''SizeOfExpr'', ''calculates the size of a type or expression''),
   (''MaterializeTemporaryExpr'', ''materializes a temporary object''),
   (''ExprWithCleanups'', ''manages cleanup of temporary objects''),
   (''CXXBindTemporaryExpr'', ''binds a temporary object for cleanup''),
   (''AlignedAttr'', ''specifies memory alignment requirements''),
   (''VisibilityAttr'', ''controls symbol visibility''),
   (''DeprecatedAttr'', ''marks a declaration as deprecated''),
   (''NoReturnAttr'', ''indicates a function never returns''),
   (''TemplateTypeParmDecl'', ''declares a template type parameter''),
   (''NonTypeTemplateParmDecl'', ''declares a non-type template parameter''),
   (''TemplateTemplateParmDecl'', ''declares a template template parameter''),
   (''ClassTemplateSpecializationDecl'', ''specializes a class template''),
   (''FunctionTemplateDecl'', ''declares a function template''),
   (''LambdaExpr'', ''defines a lambda expression (anonymous function)''),
   (''CXXDefaultArgExpr'', ''represents a default argument in function call''),
   (''InitListExpr'', ''represents brace-enclosed initializer list''),
   (''DesignatedInitExpr'', ''represents designated initializer (C99/C++20)''),
   (''CompoundLiteralExpr'', ''represents a compound literal''),
   (''MacroExpansion'', ''represents an expanded macro''),
   (''InclusionDirective'', ''represents a #include directive'')
  ]"

text \<open>\<open>_build_pattern_explanations\<close>: the list of (pattern nodes, explanation) pairs, in
  source order.\<close>

definition patterns :: "(string list \<times> string) list" where
  "patterns = [
   ([''FunctionDecl'', ''CompoundStmt''], ''defines a function with a body containing statements''),
   ([''FunctionDecl'', ''ParmVarDecl''], ''defines a function that takes parameters''),
   ([''CallExpr'', ''DeclRefExpr''], ''calls a previously declared function''),
   ([''VarDecl'', ''IntegerLiteral''], ''declares an integer variable with a literal value''),
   ([''VarDecl'', ''CallExpr''], ''declares a variable initialized by a function call''),
   ([''AssignmentOperator'', ''DeclRefExpr''], ''assigns a value to an existing variable''),
   ([''IfStmt'', ''BinaryOperator''], ''conditional statement with a comparison''),
   ([''ForStmt'', ''BinaryOperator''], ''for loop with a comparison condition''),
   ([''WhileStmt'', ''BinaryOperator''], ''while loop with a comparison condition''),
   ([''CXXRecordDecl'', ''CXXMethodDecl''], ''defines a class with member methods''),
   ([''CXXRecordDecl'', ''FieldDecl''], ''defines a class with member variables''),
   ([''CXXConstructorDecl'', ''MemberExpr''], ''constructor that initializes member variables''),
   ([''BinaryOperator'', ''DeclRefExpr''], ''performs an operation on variables''),
   ([''CallExpr'', ''MemberExpr''], ''calls a method on an object''),
   ([''ArraySubscriptExpr'', ''DeclRefExpr''], ''accesses an array element''),
   ([''CXXNewExpr'', ''CXXConstructExpr''], ''dynamically creates an object''),
   ([''CXXDeleteExpr'', ''DeclRefExpr''], ''deallocates a dynamically allocated object'')
  ]"

text \<open>The pattern loop of \<open>explain_ast_nodes\<close>: the first pattern all of whose nodes are
  in \<open>sorted_nodes\<close> returns its explanation.\<close>

fun match_patterns :: "(string list \<times> string) list \<Rightarrow> string list \<Rightarrow> string option" where
  "match_patterns [] sorted_nodes = None"
| "match_patterns ((pattern_nodes, explanation) # rest) sorted_nodes =
     (if list_all (\<lambda>node. node \<in> set sorted_nodes) pattern_nodes then Some explanation
      else match_patterns rest sorted_nodes)"

text \<open>The fallback loop: one entry per node, the catalog's text or \<open>f"AST node: {node}"\<close>.\<close>

fun node_explanations :: "string list \<Rightarrow> string list" where
  "node_explanations [] = []"
| "node_explanations (node # rest) =
     (case map_of explanations node of
        Some e \<Rightarrow> e
      | None \<Rightarrow> ''AST node: '' @ node) # node_explanations rest"

text \<open>The three-way combination at the end of \<open>explain_ast_nodes\<close>.\<close>

definition combine :: "string list \<Rightarrow> error + string" where
  "combine es =
     (if length es = 1 then Inr (es ! 0)
      else if length es = 2 then Inr (es ! 0 @ '' and '' @ es ! 1)
      else (case py_last es of
              Inl err \<Rightarrow> Inl err
            | Inr l \<Rightarrow> Inr (''combines '' @ py_join '', '' (butlast es) @ '', and '' @ l)))"

definition explain_ast_nodes :: "string list \<Rightarrow> string \<Rightarrow> error + string" where
  "explain_ast_nodes ast_nodes source_line =
     (if ast_nodes = [] then Inr ''''
      else
        let sorted_nodes = sort ast_nodes
        in (case match_patterns patterns sorted_nodes of
              Some explanation \<Rightarrow> Inr explanation
            | None \<Rightarrow> combine (node_explanations sorted_nodes)))"

definition get_detailed_explanation :: "string list \<Rightarrow> string \<Rightarrow> error + string" where
  "get_detailed_explanation ast_nodes source_line =
     (case explain_ast_nodes ast_nodes source_line of
        Inl err \<Rightarrow> Inl err
      | Inr explanation \<Rightarrow>
          let line_lower = py_strip (py_lower source_line)
          in Inr
            (if contains line_lower ''main(''
               then explanation @ '' (this is the program's entry point)''
             else if startswith line_lower ''class '' \<or> startswith line_lower ''struct ''
               then explanation @ '' (defining a new data type)''
             else if startswith line_lower ''#include''
               then explanation @ '' (including external code)''
             else if contains line_lower ''cout'' \<or> contains line_lower ''printf''
               then explanation @ '' (performing output operation)''
             else if contains line_lower ''cin'' \<or> contains line_lower ''scanf''
               then explanation @ '' (performing input operation)''
             else if endswith line_lower '';'' \<and> contains line_lower ''=''
                     \<and> \<not> startswith (py_strip line_lower) ''for''
               then explanation @ '' (assignment or initialization)''
             else explanation))"

section \<open>The parsed document\<close>

text \<open>
  The document is what \<open>json.loads\<close> returns for the parser's output: \<open>None\<close>, booleans,
  integers, strings, lists, and dictionaries with string keys, kept in document order
  (pairwise distinct keys). The parser's dump of a syntax tree writes every number as an
  integer; documents with fractional numbers are outside this model.
\<close>

datatype json =
    JNull
  | JBool bool
  | JInt int
  | JStr string
  | JArr "json list"
  | JObj "(string \<times> json) list"

text \<open>Python truthiness: \<open>None\<close>, \<open>False\<close>, \<open>0\<close>, \<open>""\<close>, \<open>[]\<close> and \<open>{}\<close> are false.\<close>

fun truthy :: "json \<Rightarrow> bool" where
  "truthy JNull = False"
| "truthy (JBool b) = b"
| "truthy (JInt n) = (n \<noteq> 0)"
| "truthy (JStr s) = (s \<noteq> [])"
| "truthy (JArr xs) = (xs \<noteq> [])"
| "truthy (JObj d) = (d \<noteq> [])"

text \<open>Lists and dictionaries cannot be hashed: a set operation on one raises \<open>TypeError\<close>.\<close>

fun hashable :: "json \<Rightarrow> bool" where
  "hashable (JArr xs) = False"
| "hashable (JObj d) = False"
| "hashable v = True"

section \<open>\<open>should_include_node\<close>\<close>

text \<open>\<open>kind in names\<close> for a set literal of strings: the kind is hashed first; only a
  string can be equal to a member.\<close>

definition py_in :: "json \<Rightarrow> string list \<Rightarrow> error + bool" where
  "py_in kind names =
     (if hashable kind
      then Inr (case kind of JStr s \<Rightarrow> s \<in> set names | _ \<Rightarrow> False)
      else Inl TypeError)"

definition important_nodes :: "string list" where
  "important_nodes =
    [''FunctionDecl'', ''CXXMethodDecl'', ''CXXConstructorDecl'', ''CXXDestructorDecl'',
     ''CXXRecordDecl'', ''ClassTemplateDecl'', ''VarDecl'', ''FieldDecl'',
     ''IfStmt'', ''ForStmt'', ''WhileStmt'', ''CXXForRangeStmt'', ''SwitchStmt'',
     ''ReturnStmt'', ''BreakStmt'', ''ContinueStmt'', ''CompoundStmt'']"

definition noise_nodes :: "string list" where
  "noise_nodes =
    [''MaterializeTemporaryExpr'', ''CXXBindTemporaryExpr'', ''ExprWithCleanups'',
     ''ParenExpr'', ''AlignedAttr'', ''VisibilityAttr'']"

definition decl_nodes :: "string list" where
  "decl_nodes =
    [''FunctionDecl'', ''CXXMethodDecl'', ''CXXConstructorDecl'', ''CXXDestructorDecl'',
     ''CXXRecordDecl'', ''ClassTemplateDecl'', ''VarDecl'', ''FieldDecl'',
     ''ParmVarDecl'', ''NamespaceDecl'', ''UsingDecl'', ''TypedefDecl'']"

definition stmt_nodes :: "string list" where
  "stmt_nodes =
    [''IfStmt'', ''ForStmt'', ''WhileStmt'', ''CXXForRangeStmt'', ''SwitchStmt'',
     ''ReturnStmt'', ''BreakStmt'', ''ContinueStmt'', ''CompoundStmt'',
     ''DeclStmt'', ''ExprStmt'', ''NullStmt'']"

definition should_include_node :: "json \<Rightarrow> string \<Rightarrow> error + bool" where
  "should_include_node kind filter_config =
     (if filter_config = ''minimal'' then py_in kind important_nodes
      else if filter_config = ''clean'' then
        (case py_in kind noise_nodes of Inl err \<Rightarrow> Inl err | Inr b \<Rightarrow> Inr (\<not> b))
      else if filter_config = ''declarations'' then py_in kind decl_nodes
      else if filter_config = ''statements'' then py_in kind stmt_nodes
      else Inr True)"

section \<open>\<open>os.path\<close> on POSIX\<close>

definition isabs :: "string \<Rightarrow> bool" where
  "isabs s = startswith s ''/''"

text \<open>\<open>basename(p)\<close> is \<open>p[p.rfind('/') + 1:]\<close>.\<close>

definition basename :: "string \<Rightarrow> string" where
  "basename p = rev (takeWhile (\<lambda>c. c \<noteq> CHR ''/'') (rev p))"

text \<open>\<open>path.split('/')\<close>.\<close>

fun split_sep :: "string \<Rightarrow> string list" where
  "split_sep [] = [[]]"
| "split_sep (c # cs) =
     (if c = CHR ''/'' then [] # split_sep cs
      else (case split_sep cs of
              [] \<Rightarrow> [[c]]
            | h # t \<Rightarrow> (c # h) # t))"

text \<open>The component loop of \<open>normpath\<close>; \<open>new_comps\<close> grows and shrinks at its end.\<close>

fun norm_comps :: "nat \<Rightarrow> string list \<Rightarrow> string list \<Rightarrow> string list" where
  "norm_comps initial_slashes [] new_comps = new_comps"
| "norm_comps initial_slashes (comp1 # rest) new_comps =
     (if comp1 = '''' \<or> comp1 = ''.'' then norm_comps initial_slashes rest new_comps
      else if comp1 \<noteq> ''..'' \<or> (initial_slashes = 0 \<and> new_comps = [])
                \<or> (new_comps \<noteq> [] \<and> last new_comps = ''..'')
        then norm_comps initial_slashes rest (new_comps @ [comp1])
      else if new_comps \<noteq> [] then norm_comps initial_slashes rest (butlast new_comps)
      else norm_comps initial_slashes rest new_comps)"

definition normpath :: "string \<Rightarrow> string" where
  "normpath path =
     (if path = '''' then ''.''
      else
        let initial_slashes =
              (if startswith path ''/''
               then (if startswith path ''//'' \<and> \<not> startswith path ''///'' then 2 else 1)
               else (0::nat));
            comps = norm_comps initial_slashes (split_sep path) [];
            joined = replicate initial_slashes CHR ''/'' @ py_join ''/'' comps
        in if joined = '''' then ''.'' else joined)"

text \<open>\<open>os.path.join(a, b)\<close> with one component.\<close>

definition path_join :: "string \<Rightarrow> string \<Rightarrow> string" where
  "path_join a b =
     (if startswith b ''/'' then b
      else if a = '''' \<or> endswith a ''/'' then a @ b
      else a @ ''/'' @ b)"

text \<open>\<open>abspath\<close> reads the process's working directory: \<open>cwd\<close> is \<open>os.getcwd()\<close>.\<close>

definition abspath :: "string \<Rightarrow> string \<Rightarrow> string" where
  "abspath cwd path = normpath (if isabs path then path else path_join cwd path)"

section \<open>\<open>collect_line_annotations\<close>\<close>

text \<open>\<open>d.get(key, default)\<close>; \<open>d.get(key)\<close> is \<open>dict_get d key JNull\<close>.\<close>

definition dict_get :: "(string \<times> json) list \<Rightarrow> string \<Rightarrow> json \<Rightarrow> json" where
  "dict_get d k dflt = (case map_of d k of Some v \<Rightarrow> v | None \<Rightarrow> dflt)"

text \<open>Python's \<open>==\<close> on documents: \<open>True == 1\<close> and \<open>False == 0\<close>; lists compare element by
  element; dictionaries compare as finite maps, whatever the order of their keys.\<close>

fun py_eq :: "json \<Rightarrow> json \<Rightarrow> bool"
  and py_eq_list :: "json list \<Rightarrow> json list \<Rightarrow> bool"
  and py_eq_items :: "(string \<times> json) list \<Rightarrow> (string \<times> json) list \<Rightarrow> bool" where
  "py_eq JNull b = (b = JNull)"
| "py_eq (JBool x) b =
     (case b of JBool y \<Rightarrow> x = y | JInt n \<Rightarrow> n = (if x then 1 else 0) | _ \<Rightarrow> False)"
| "py_eq (JInt m) b =
     (case b of JBool y \<Rightarrow> m = (if y then 1 else 0) | JInt n \<Rightarrow> m = n | _ \<Rightarrow> False)"
| "py_eq (JStr s) b = (b = JStr s)"
| "py_eq (JArr xs) b = (case b of JArr ys \<Rightarrow> py_eq_list xs ys | _ \<Rightarrow> False)"
| "py_eq (JObj d) b =
     (case b of
        JObj e \<Rightarrow> py_eq_items d e \<and> list_all (\<lambda>(k, w). map_of d k \<noteq> None) e
      | _ \<Rightarrow> False)"
| "py_eq_list [] ys = (ys = [])"
| "py_eq_list (x # xs) ys =
     (case ys of [] \<Rightarrow> False | y # ys' \<Rightarrow> py_eq x y \<and> py_eq_list xs ys')"
| "py_eq_items [] e = True"
| "py_eq_items ((k, v) # d) e =
     ((case map_of e k of None \<Rightarrow> False | Some w \<Rightarrow> py_eq v w) \<and> py_eq_items d e)"

text \<open>\<open>line and isinstance(line, int)\<close>: a non-zero integer, or \<open>True\<close>, which is a
  Python \<open>int\<close> and the same dictionary key as \<open>1\<close>.\<close>

fun line_of :: "json \<Rightarrow> int option" where
  "line_of (JInt n) = (if n \<noteq> 0 then Some n else None)"
| "line_of (JBool b) = (if b then Some 1 else None)"
| "line_of v = None"

text \<open>A set holds one element for values that are \<open>==\<close>: a boolean is stored as its
  integer.\<close>

fun set_key :: "json \<Rightarrow> json" where
  "set_key (JBool b) = JInt (if b then 1 else 0)"
| "set_key v = v"

type_synonym line_map = "int \<rightharpoonup> json set"

text \<open>\<open>line_map.setdefault(line, set()).add(node_kind)\<close>.\<close>

definition add_kind :: "line_map \<Rightarrow> int \<Rightarrow> json \<Rightarrow> error + line_map" where
  "add_kind line_map line node_kind =
     (if hashable node_kind
      then Inr (line_map(line \<mapsto>
                  insert (set_key node_kind) (case line_map line of None \<Rightarrow> {} | Some s \<Rightarrow> s)))
      else Inl TypeError)"

text \<open>The two lines that both branches of \<open>process_location\<close> end with:
  \<open>if should_include_node(node_kind, filter_config): line_map.setdefault(line, set()).add(node_kind)\<close>.\<close>

definition add_if_included :: "string \<Rightarrow> line_map \<Rightarrow> int \<Rightarrow> json \<Rightarrow> error + line_map" where
  "add_if_included filter_config line_map line node_kind =
     (case should_include_node node_kind filter_config of
        Inl err \<Rightarrow> Inl err
      | Inr b \<Rightarrow> if b then add_kind line_map line node_kind else Inr line_map)"

text \<open>The nested function \<open>process_location\<close>, with the variables it closes over
  (\<open>line_map\<close>, \<open>target_file_path\<close>, \<open>filter_config\<close>) as arguments. \<open>os.path.isabs\<close> raises
  \<open>TypeError\<close> on a path that is not a string.\<close>

definition process_location ::
  "string \<Rightarrow> line_map \<Rightarrow> string \<Rightarrow> string \<Rightarrow> json \<Rightarrow> json \<Rightarrow> error + line_map" where
  "process_location cwd line_map target_file_path filter_config loc_info node_kind =
     (case loc_info of
        JObj d \<Rightarrow>
          if d = [] then Inr line_map
          else
            let file_path = dict_get d ''file'' (JStr '''');
                line = dict_get d ''line'' JNull
            in (case line_of line of
                  None \<Rightarrow> Inr line_map
                | Some n \<Rightarrow>
                    if \<not> truthy node_kind then Inr line_map
                    else
                      let target_abs = abspath cwd target_file_path
                      in if \<not> truthy file_path
                         then add_if_included filter_config line_map n node_kind
                         else (case file_path of
                                 JStr f \<Rightarrow>
                                   let file_abs = (if isabs f then abspath cwd f else f)
                                   in if file_abs = target_abs
                                         \<or> basename file_abs = basename target_abs
                                      then add_if_included filter_config line_map n node_kind
                                      else Inr line_map
                               | _ \<Rightarrow> Inl TypeError))
      | _ \<Rightarrow> Inr line_map)"

text \<open>The \<open>range\<close> block of a node: the \<open>begin\<close> location, then the \<open>end\<close> location
  unless it is equal to \<open>begin\<close>.\<close>

definition process_range ::
  "string \<Rightarrow> line_map \<Rightarrow> string \<Rightarrow> string \<Rightarrow> json \<Rightarrow> json \<Rightarrow> error + line_map" where
  "process_range cwd line_map target_file_path filter_config range_info kind =
     (case range_info of
        JObj r \<Rightarrow>
          if r = [] then Inr line_map
          else
            let begin_loc = dict_get r ''begin'' JNull;
                end_loc = dict_get r ''end'' JNull
            in (case (if truthy begin_loc
                      then process_location cwd line_map target_file_path filter_config
                             begin_loc kind
                      else Inr line_map) of
                  Inl err \<Rightarrow> Inl err
                | Inr m \<Rightarrow>
                    if truthy end_loc \<and> \<not> py_eq end_loc begin_loc
                    then process_location cwd m target_file_path filter_config end_loc kind
                    else Inr m)
      | _ \<Rightarrow> Inr line_map)"

text \<open>What a dictionary node does before it recurses: its \<open>loc\<close>, then its \<open>range\<close>.\<close>

definition process_node ::
  "string \<Rightarrow> line_map \<Rightarrow> string \<Rightarrow> string \<Rightarrow> (string \<times> json) list \<Rightarrow> error + line_map" where
  "process_node cwd line_map target_file_path filter_config node =
     (let kind = dict_get node ''kind'' JNull;
          loc = dict_get node ''loc'' JNull
      in (case (if truthy loc
                then process_location cwd line_map target_file_path filter_config loc kind
                else Inr line_map) of
            Inl err \<Rightarrow> Inl err
          | Inr m \<Rightarrow>
              process_range cwd m target_file_path filter_config
                (dict_get node ''range'' JNull) kind))"

text \<open>The traversal. \<open>collect_values\<close> is the loop over \<open>node.values()\<close>, \<open>collect_items\<close>
  the loop over a list. An exception ends the traversal.

  The interpreter bounds the depth of its call stack (\<open>sys.getrecursionlimit()\<close>, 1000
  unless changed, and \<open>annotate.py\<close> does not change it) and raises \<open>RecursionError\<close>
  beyond it. \<open>collect_line_annotations\<close> calls itself once for every value of a
  dictionary and every element of a list, one frame per level of nesting, so the bound
  is part of the model: \<open>depth\<close> is the number of nested calls of
  \<open>collect_line_annotations\<close> that the interpreter still allows, that is the limit less
  the frames in use when the traversal starts and less the few frames that the calls
  made at one node (\<open>process_location\<close>, \<open>should_include_node\<close> and the \<open>os.path\<close>
  functions) need below it. A call with no depth left raises \<open>RecursionError\<close>. (Where
  the nesting exceeds \<open>depth\<close> by less than those few frames the interpreter raises only
  at a node that calls \<open>process_location\<close>; the model raises at every node there.)\<close>

fun collect_line_annotations ::
    "string \<Rightarrow> nat \<Rightarrow> json \<Rightarrow> line_map \<Rightarrow> string \<Rightarrow> string \<Rightarrow> error + line_map"
  and collect_values ::
    "string \<Rightarrow> nat \<Rightarrow> (string \<times> json) list \<Rightarrow> line_map \<Rightarrow> string \<Rightarrow> string
      \<Rightarrow> error + line_map"
  and collect_items ::
    "string \<Rightarrow> nat \<Rightarrow> json list \<Rightarrow> line_map \<Rightarrow> string \<Rightarrow> string \<Rightarrow> error + line_map" where
  "collect_line_annotations cwd 0 node line_map target_file_path filter_config =
     Inl RecursionError"
| "collect_line_annotations cwd (Suc depth) (JObj node) line_map target_file_path filter_config =
     (case process_node cwd line_map target_file_path filter_config node of
        Inl err \<Rightarrow> Inl err
      | Inr m \<Rightarrow> collect_values cwd depth node m target_file_path filter_config)"
| "collect_line_annotations cwd (Suc depth) (JArr items) line_map target_file_path filter_config =
     collect_items cwd depth items line_map target_file_path filter_config"
| "collect_line_annotations cwd (Suc depth) JNull line_map target_file_path filter_config =
     Inr line_map"
| "collect_line_annotations cwd (Suc depth) (JBool b) line_map target_file_path filter_config =
     Inr line_map"
| "collect_line_annotations cwd (Suc depth) (JInt n) line_map target_file_path filter_config =
     Inr line_map"
| "collect_line_annotations cwd (Suc depth) (JStr s) line_map target_file_path filter_config =
     Inr line_map"
| "collect_values cwd depth [] line_map target_file_path filter_config = Inr line_map"
| "collect_values cwd depth ((k, v) # rest) line_map target_file_path filter_config =
     (case collect_line_annotations cwd depth v line_map target_file_path filter_config of
        Inl err \<Rightarrow> Inl err
      | Inr m \<Rightarrow> collect_values cwd depth rest m target_file_path filter_config)"
| "collect_items cwd depth [] line_map target_file_path filter_config = Inr line_map"
| "collect_items cwd depth (item # rest) line_map target_file_path filter_config =
     (case collect_line_annotations cwd depth item line_map target_file_path filter_config of
        Inl err \<Rightarrow> Inl err
      | Inr m \<Rightarrow> collect_items cwd depth rest m target_file_path filter_config)"

section \<open>Definitions that follow the specification's words\<close>

text \<open>
  From here on no definition embeds a function of the source. These definitions say, in
  the specification's terms, what the claims are about; the theorems compare them with
  the embedded functions above. Where the code departs from a claim, the claim's own
  words and its amended wording are defined side by side.
\<close>

text \<open>The fallback join rule: one description verbatim; two joined with "and"; three or
  more with a comma after each but the last, then "and", then the last.\<close>

definition spec_fallback_join :: "string list \<Rightarrow> string" where
  "spec_fallback_join ds =
     (case ds of
        [] \<Rightarrow> ''''
      | [d] \<Rightarrow> d
      | [d1, d2] \<Rightarrow> d1 @ '' and '' @ d2
      | _ \<Rightarrow> concat (map (\<lambda>d. d @ '', '') (butlast ds)) @ ''and '' @ last ds)"

text \<open>The description the specification gives for a tag without a catalog entry.\<close>

definition spec_unknown_description :: "string \<Rightarrow> string" where
  "spec_unknown_description tag = ''unrecognized category: '' @ [CHR 0x60] @ tag @ [CHR 0x60]"

subsection \<open>The contextual suffix\<close>

text \<open>Case folding as a table: each capital letter of the Latin-1 range beside its small
  letter: A to Z, and the accented capitals 0xC0 to 0xDE (the multiplication sign 0xD7
  is no letter). Every other character folds to itself.\<close>

definition spec_case_table :: "(char \<times> char) list" where
  "spec_case_table =
     zip (''ABCDEFGHIJKLMNOPQRSTUVWXYZ'' @
         [CHR 0xC0, CHR 0xC1, CHR 0xC2, CHR 0xC3, CHR 0xC4, CHR 0xC5, CHR 0xC6, CHR 0xC7,
          CHR 0xC8, CHR 0xC9, CHR 0xCA, CHR 0xCB, CHR 0xCC, CHR 0xCD, CHR 0xCE, CHR 0xCF,
          CHR 0xD0, CHR 0xD1, CHR 0xD2, CHR 0xD3, CHR 0xD4, CHR 0xD5, CHR 0xD6, CHR 0xD8,
          CHR 0xD9, CHR 0xDA, CHR 0xDB, CHR 0xDC, CHR 0xDD, CHR 0xDE])
         (''abcdefghijklmnopqrstuvwxyz'' @
         [CHR 0xE0, CHR 0xE1, CHR 0xE2, CHR 0xE3, CHR 0xE4, CHR 0xE5, CHR 0xE6, CHR 0xE7,
          CHR 0xE8, CHR 0xE9, CHR 0xEA, CHR 0xEB, CHR 0xEC, CHR 0xED, CHR 0xEE, CHR 0xEF,
          CHR 0xF0, CHR 0xF1, CHR 0xF2, CHR 0xF3, CHR 0xF4, CHR 0xF5, CHR 0xF6, CHR 0xF8,
          CHR 0xF9, CHR 0xFA, CHR 0xFB, CHR 0xFC, CHR 0xFD, CHR 0xFE])"

definition spec_fold_char :: "char \<Rightarrow> char" where
  "spec_fold_char c = (case map_of spec_case_table c of None \<Rightarrow> c | Some l \<Rightarrow> l)"

text \<open>The whitespace characters of the Latin-1 range: tab, line feed, vertical tab, form
  feed, carriage return, the four separators 0x1C to 0x1F, space, next line 0x85 and
  no-break space 0xA0.\<close>

definition spec_whitespace :: "char list" where
  "spec_whitespace =
     [CHR 0x09, CHR 0x0A, CHR 0x0B, CHR 0x0C, CHR 0x0D, CHR 0x1C, CHR 0x1D, CHR 0x1E,
      CHR 0x1F, CHR 0x20, CHR 0x85, CHR 0xA0]"

text \<open>Trimming: whitespace removed from the front until a character that is none, and
  from the rear likewise; whitespace inside the text stays.\<close>

fun spec_trim_front :: "string \<Rightarrow> string" where
  "spec_trim_front [] = []"
| "spec_trim_front (c # cs) = (if c \<in> set spec_whitespace then spec_trim_front cs else c # cs)"

fun spec_trim_rear :: "string \<Rightarrow> string" where
  "spec_trim_rear [] = []"
| "spec_trim_rear (c # cs) =
     (case spec_trim_rear cs of
        [] \<Rightarrow> (if c \<in> set spec_whitespace then [] else [c])
      | d # ds \<Rightarrow> c # d # ds)"

text \<open>The case-folded, trimmed text.\<close>

definition spec_normalise :: "string \<Rightarrow> string" where
  "spec_normalise source_text = spec_trim_rear (spec_trim_front (map spec_fold_char source_text))"

text \<open>
  The heuristics in the words of claim C8. A token is a maximal run of identifier
  characters (letters, digits, underscore), so a word is a token of the text where it
  occurs with no identifier character next to it on either side.
\<close>

definition ident_char :: "char \<Rightarrow> bool" where
  "ident_char c =
     (c \<in> set ''abcdefghijklmnopqrstuvwxyzABCDEFGHIJKLMNOPQRSTUVWXYZ0123456789_'')"

text \<open>The rest of the text does not continue an identifier.\<close>

definition token_ends :: "string \<Rightarrow> bool" where
  "token_ends rest = (case rest of [] \<Rightarrow> True | d # ds \<Rightarrow> \<not> ident_char d)"

text \<open>Some position of the text where an identifier can begin satisfies \<open>p\<close>;
  \<open>inside\<close> says that the character before the text is an identifier character.\<close>

fun at_token_start :: "bool \<Rightarrow> (string \<Rightarrow> bool) \<Rightarrow> string \<Rightarrow> bool" where
  "at_token_start inside p [] = False"
| "at_token_start inside p (c # cs) =
     ((\<not> inside \<and> p (c # cs)) \<or> at_token_start (ident_char c) p cs)"

definition has_token :: "string \<Rightarrow> string \<Rightarrow> bool" where
  "has_token w t =
     at_token_start False (\<lambda>s. prefix w s \<and> token_ends (drop (length w) s)) t"

text \<open>The entry-point call pattern: the token \<open>main\<close> with an opening parenthesis
  right after it.\<close>

definition has_call :: "string \<Rightarrow> string \<Rightarrow> bool" where
  "has_call f t = at_token_start False (\<lambda>s. prefix (f @ ''('') s) t"

text \<open>The text begins with a keyword, as a token of its own.\<close>

definition starts_with_keyword :: "string \<Rightarrow> string \<Rightarrow> bool" where
  "starts_with_keyword w t = (prefix w t \<and> token_ends (drop (length w) t))"

text \<open>An assignment token: an equals sign that is not part of one of the comparison
  operators \<open>==\<close>, \<open>!=\<close>, \<open><=\<close>, \<open>>=\<close>; \<open>before\<close> is the character before the
  text.\<close>

fun has_assignment_token :: "char \<Rightarrow> string \<Rightarrow> bool" where
  "has_assignment_token before [] = False"
| "has_assignment_token before (c # cs) =
     ((c = CHR ''='' \<and> before \<notin> set ''=!<>''
         \<and> (case cs of [] \<Rightarrow> True | d # ds \<Rightarrow> d \<noteq> CHR ''=''))
      \<or> has_assignment_token c cs)"

text \<open>A loop header: a statement that begins with the keyword \<open>for\<close> or \<open>while\<close>.\<close>

definition loop_header :: "string \<Rightarrow> bool" where
  "loop_header t = (starts_with_keyword ''for'' t \<or> starts_with_keyword ''while'' t)"

text \<open>The ordered heuristics as claim C8 states them, each with its fixed annotation:
  entry-point call pattern, type-definition keyword prefix, include-directive prefix,
  output-operation token, input-operation token, generic assignment pattern (contains
  an assignment token, ends the statement, and is not a loop header).\<close>

definition claimed_heuristics :: "((string \<Rightarrow> bool) \<times> string) list" where
  "claimed_heuristics =
    [(has_call ''main'', ''this is the program's entry point''),
     (\<lambda>t. starts_with_keyword ''class'' t \<or> starts_with_keyword ''struct'' t,
        ''defining a new data type''),
     (prefix ''#include'', ''including external code''),
     (\<lambda>t. has_token ''cout'' t \<or> has_token ''printf'' t, ''performing output operation''),
     (\<lambda>t. has_token ''cin'' t \<or> has_token ''scanf'' t, ''performing input operation''),
     (\<lambda>t. has_assignment_token (CHR '' '') t \<and> suffix '';'' t \<and> \<not> loop_header t,
        ''assignment or initialization'')]"

text \<open>The suffix as claim C8 states it: the annotation of the first of these heuristics
  that the case-folded, trimmed text satisfies, in parentheses after a space, or
  nothing.\<close>

definition claimed_suffix :: "string \<Rightarrow> string" where
  "claimed_suffix source_text =
     (case find (\<lambda>(h, a). h (spec_normalise source_text)) claimed_heuristics of
        None \<Rightarrow> ''''
      | Some (h, a) \<Rightarrow> '' ('' @ a @ '')'')"

text \<open>
  The six tests of claim C8 as amended, in order, each with its fixed annotation. They
  are tests of characters, not of tokens: the text contains \<open>main(\<close> anywhere; it
  begins with \<open>class\<close> or \<open>struct\<close> and a space; it begins with \<open>#include\<close>; it contains
  \<open>cout\<close> or \<open>printf\<close> anywhere; it contains \<open>cin\<close> or \<open>scanf\<close> anywhere; it contains an
  equals sign anywhere, ends with a semicolon and does not begin with the letters
  \<open>for\<close>.
\<close>

definition spec_heuristics :: "((string \<Rightarrow> bool) \<times> string) list" where
  "spec_heuristics =
    [(\<lambda>t. sublist ''main('' t, ''this is the program's entry point''),
     (\<lambda>t. prefix ''class '' t \<or> prefix ''struct '' t, ''defining a new data type''),
     (\<lambda>t. prefix ''#include'' t, ''including external code''),
     (\<lambda>t. sublist ''cout'' t \<or> sublist ''printf'' t, ''performing output operation''),
     (\<lambda>t. sublist ''cin'' t \<or> sublist ''scanf'' t, ''performing input operation''),
     (\<lambda>t. sublist ''='' t \<and> suffix '';'' t \<and> \<not> prefix ''for'' t,
        ''assignment or initialization'')]"

text \<open>The suffix of claim C8 as amended: the annotation of the first of the six tests
  that the case-folded, trimmed text passes, in parentheses after a space, or
  nothing.\<close>

definition spec_suffix :: "string \<Rightarrow> string" where
  "spec_suffix source_text =
     (case find (\<lambda>(h, a). h (spec_normalise source_text)) spec_heuristics of
        None \<Rightarrow> ''''
      | Some (h, a) \<Rightarrow> '' ('' @ a @ '')'')"

subsection \<open>The line map\<close>

text \<open>A file name denotes the target file: its path (normalised when it is absolute,
  as written when it is relative) equals the target's absolute path, or else the two
  have the same final component.\<close>

definition spec_denotes_target :: "string \<Rightarrow> string \<Rightarrow> string \<Rightarrow> bool" where
  "spec_denotes_target cwd target_file_path f =
     ((if isabs f then abspath cwd f else f) = abspath cwd target_file_path
      \<or> basename (if isabs f then abspath cwd f else f) = basename (abspath cwd target_file_path))"

text \<open>Every dictionary of a document, a node before the nodes nested in its fields:
  dictionaries by value, lists by element, scalars contribute none.\<close>

fun nodes_of :: "json \<Rightarrow> (string \<times> json) list list"
  and nodes_of_values :: "(string \<times> json) list \<Rightarrow> (string \<times> json) list list"
  and nodes_of_items :: "json list \<Rightarrow> (string \<times> json) list list" where
  "nodes_of (JObj d) = d # nodes_of_values d"
| "nodes_of (JArr xs) = nodes_of_items xs"
| "nodes_of JNull = []"
| "nodes_of (JBool b) = []"
| "nodes_of (JInt n) = []"
| "nodes_of (JStr s) = []"
| "nodes_of_values [] = []"
| "nodes_of_values ((k, v) # rest) = nodes_of v @ nodes_of_values rest"
| "nodes_of_items [] = []"
| "nodes_of_items (x # rest) = nodes_of x @ nodes_of_items rest"

text \<open>Each node of a list registered in turn, by itself; an exception ends the run.\<close>

fun register_nodes ::
  "string \<Rightarrow> (string \<times> json) list list \<Rightarrow> line_map \<Rightarrow> string \<Rightarrow> string \<Rightarrow> error + line_map" where
  "register_nodes cwd [] line_map target_file_path filter_config = Inr line_map"
| "register_nodes cwd (node # rest) line_map target_file_path filter_config =
     (case process_node cwd line_map target_file_path filter_config node of
        Inl err \<Rightarrow> Inl err
      | Inr m \<Rightarrow> register_nodes cwd rest m target_file_path filter_config)"

text \<open>The line a location carries, if any, and the tags a map holds at a line.\<close>

definition loc_line :: "json \<Rightarrow> int option" where
  "loc_line loc_info =
     (case loc_info of JObj d \<Rightarrow> line_of (dict_get d ''line'' JNull) | _ \<Rightarrow> None)"

definition tags_at :: "line_map \<Rightarrow> int \<Rightarrow> json set" where
  "tags_at line_map line = (case line_map line of None \<Rightarrow> {} | Some s \<Rightarrow> s)"

section \<open>The invariant of the traversal\<close>

text \<open>Every tag a line map holds is accepted by the filter.\<close>

definition filter_sound :: "string \<Rightarrow> line_map \<Rightarrow> bool" where
  "filter_sound cfg m = (\<forall>L s t. m L = Some s \<longrightarrow> t \<in> s \<longrightarrow> should_include_node t cfg = Inr True)"

section \<open>Example documents\<close>

text \<open>A function whose name is on a later line than its first token, holding a
  parenthesised expression around a variable declaration.\<close>

definition example_function :: "(string \<times> json) list" where
  "example_function =
    [(''kind'', JStr ''FunctionDecl''),
     (''loc'', JObj [(''line'', JInt 15)]),
     (''range'', JObj [(''begin'', JObj [(''line'', JInt 10)]),
                      (''end'', JObj [(''line'', JInt 25)])])]"

definition example_tree :: json where
  "example_tree =
    JObj [(''kind'', JStr ''ParenExpr''),
          (''loc'', JObj [(''line'', JInt 11), (''file'', JStr ''/src/a.c'')]),
          (''inner'',
             JArr [JObj [(''loc'', JObj [(''line'', JInt 11)]),
                         (''inner'',
                            JArr [JObj [(''kind'', JStr ''VarDecl''),
                                        (''loc'', JObj [(''line'', JInt 12),
                                                       (''file'', JStr ''a.c'')])]])]])]"

section \<open>What a location decides\<close>

text \<open>
  The definitions of this section serve the proofs about \<open>process_location\<close>,
  \<open>process_range\<close> and \<open>process_node\<close>: they separate the decision a location leads to
  from the update of the line map, and the lemmas \<open>process_location_target\<close>,
  \<open>process_range_target\<close> and \<open>process_node_target\<close> show that the embedded functions
  are that decision followed by that update.
\<close>

text \<open>The \<open>begin\<close> and the \<open>end\<close> of a range; a range that is not a dictionary has
  neither.\<close>

definition range_begin :: "json \<Rightarrow> json" where
  "range_begin range_info =
     (case range_info of JObj r \<Rightarrow> dict_get r ''begin'' JNull | _ \<Rightarrow> JNull)"

definition range_end :: "json \<Rightarrow> json" where
  "range_end range_info =
     (case range_info of JObj r \<Rightarrow> dict_get r ''end'' JNull | _ \<Rightarrow> JNull)"

text \<open>The \<open>file\<close> field of a location as \<open>process_location\<close> reads it: the empty string
  when the location has none.\<close>

definition loc_file :: "json \<Rightarrow> json" where
  "loc_file loc_info =
     (case loc_info of JObj d \<Rightarrow> dict_get d ''file'' (JStr '''') | _ \<Rightarrow> JStr '''')"

text \<open>The last step of a registration: the filter, then the set insertion, which needs
  a hashable kind.\<close>

definition admit :: "string \<Rightarrow> json \<Rightarrow> int \<Rightarrow> error + int option" where
  "admit filter_config node_kind n =
     (case should_include_node node_kind filter_config of
        Inl err \<Rightarrow> Inl err
      | Inr b \<Rightarrow>
          if b then (if hashable node_kind then Inr (Some n) else Inl TypeError)
          else Inr None)"

text \<open>The decision \<open>process_location\<close> takes, apart from the line map: an exception, no
  registration, or the line at which the kind is registered.\<close>

definition location_target ::
  "string \<Rightarrow> string \<Rightarrow> string \<Rightarrow> json \<Rightarrow> json \<Rightarrow> error + int option" where
  "location_target cwd target_file_path filter_config loc_info node_kind =
     (case loc_line loc_info of
        None \<Rightarrow> Inr None
      | Some n \<Rightarrow>
          if \<not> truthy node_kind then Inr None
          else if \<not> truthy (loc_file loc_info) then admit filter_config node_kind n
          else
            (case loc_file loc_info of
               JStr f \<Rightarrow>
                 if spec_denotes_target cwd target_file_path f
                 then admit filter_config node_kind n
                 else Inr None
             | _ \<Rightarrow> Inl TypeError))"

text \<open>A line map with a kind registered at a line, or left as it is.\<close>

definition register_at :: "json \<Rightarrow> line_map \<Rightarrow> int option \<Rightarrow> line_map" where
  "register_at node_kind line_map target =
     (case target of
        None \<Rightarrow> line_map
      | Some n \<Rightarrow> line_map(n \<mapsto> insert (set_key node_kind) (tags_at line_map n)))"

text \<open>A node with a range over lines 10 to 25 and no location of its own.\<close>

definition example_range_node :: "(string \<times> json) list" where
  "example_range_node =
    [(''kind'', JStr ''FunctionDecl''),
     (''range'', JObj [(''begin'', JObj [(''line'', JInt 10)]),
                      (''end'', JObj [(''line'', JInt 25)])])]"

section \<open>What a node registers, and how deep a document is\<close>

text \<open>The tags a node registers at a line when it is processed alone, on an empty line
  map; none when processing it raises an exception.\<close>

definition node_tags ::
  "string \<Rightarrow> string \<Rightarrow> string \<Rightarrow> (string \<times> json) list \<Rightarrow> int \<Rightarrow> json set" where
  "node_tags cwd target_file_path filter_config node line =
     (case process_node cwd Map.empty target_file_path filter_config node of
        Inl err \<Rightarrow> {}
      | Inr m \<Rightarrow> tags_at m line)"

text \<open>The number of nested calls the traversal of a document makes: one for the
  document itself, and below a dictionary or a list as many as its deepest member
  needs.\<close>

fun nesting :: "json \<Rightarrow> nat"
  and nesting_values :: "(string \<times> json) list \<Rightarrow> nat"
  and nesting_items :: "json list \<Rightarrow> nat" where
  "nesting (JObj d) = Suc (nesting_values d)"
| "nesting (JArr xs) = Suc (nesting_items xs)"
| "nesting JNull = Suc 0"
| "nesting (JBool b) = Suc 0"
| "nesting (JInt n) = Suc 0"
| "nesting (JStr s) = Suc 0"
| "nesting_values [] = 0"
| "nesting_values ((k, v) # rest) = max (nesting v) (nesting_values rest)"
| "nesting_items [] = 0"
| "nesting_items (x # rest) = max (nesting x) (nesting_items rest)"

text \<open>A document wrapped in \<open>n\<close> one-element lists.\<close>

fun nested_list :: "nat \<Rightarrow> json \<Rightarrow> json" where
  "nested_list 0 j = j"
| "nested_list (Suc n) j = JArr [nested_list n j]"

text \<open>A variable declaration on line 12.\<close>

definition example_leaf :: "(string \<times> json) list" where
  "example_leaf = [(''kind'', JStr ''VarDecl''), (''loc'', JObj [(''line'', JInt 12)])]"

section \<open>The explanation synthesizer\<close>

lemma match_patterns_first:
  "i < length ps \<Longrightarrow> set (fst (ps ! i)) \<subseteq> set s \<Longrightarrow>
   \<forall>j<i. \<not> set (fst (ps ! j)) \<subseteq> set s \<Longrightarrow>
   match_patterns ps s = Some (snd (ps ! i))"
proof (induction ps arbitrary: i)
  case Nil
  then show ?case by simp
next
  case (Cons p ps)
  obtain req expl where p: "p = (req, expl)" by (cases p)
  show ?case
  proof (cases i)
    case 0
    with Cons.prems p show ?thesis by (simp add: list_all_iff subset_iff)
  next
    case (Suc k)
    from Cons.prems(3) Suc have "\<not> set (fst ((p # ps) ! 0)) \<subseteq> set s" by blast
    then have no: "\<not> list_all (\<lambda>node. node \<in> set s) req"
      using p by (auto simp: list_all_iff)
    have "match_patterns ps s = Some (snd (ps ! k))"
    proof (rule Cons.IH)
      show "k < length ps" using Cons.prems(1) Suc by simp
      show "set (fst (ps ! k)) \<subseteq> set s" using Cons.prems(2) Suc by simp
      show "\<forall>j<k. \<not> set (fst (ps ! j)) \<subseteq> set s"
      proof (intro allI impI)
        fix j assume "j < k"
        then have "Suc j < i" using Suc by simp
        with Cons.prems(3) have "\<not> set (fst ((p # ps) ! Suc j)) \<subseteq> set s" by blast
        then show "\<not> set (fst (ps ! j)) \<subseteq> set s" by simp
      qed
    qed
    with no p Suc show ?thesis by simp
  qed
qed

lemma match_patterns_None_iff:
  "match_patterns ps s = None \<longleftrightarrow> (\<forall>p\<in>set ps. \<not> set (fst p) \<subseteq> set s)"
  by (induction ps s rule: match_patterns.induct) (auto simp: list_all_iff)

lemma patterns_nonempty: "\<forall>p\<in>set patterns. fst p \<noteq> []"
  by (simp add: patterns_def)

lemma length_node_explanations: "length (node_explanations ns) = length ns"
  by (induction ns) auto

lemma combine_total: "es \<noteq> [] \<Longrightarrow> \<exists>s. combine es = Inr s"
  by (simp add: combine_def py_last_def)

lemma explain_total: "\<exists>s. explain_ast_nodes tags line = Inr s"
proof (cases "tags = []")
  case True
  then show ?thesis by (simp add: explain_ast_nodes_def)
next
  case False
  then have "node_explanations (sort tags) \<noteq> []"
    using length_node_explanations [of "sort tags"] by auto
  from combine_total [OF this] False show ?thesis
    by (auto simp: explain_ast_nodes_def Let_def split: option.splits)
qed

lemma join_commas: "xs \<noteq> [] \<Longrightarrow> py_join '', '' xs @ '', '' = concat (map (\<lambda>d. d @ '', '') xs)"
  by (induction xs rule: induct_list012) auto

lemma combine_spec:
  "es \<noteq> [] \<Longrightarrow>
   combine es = Inr (if 3 \<le> length es then ''combines '' @ spec_fallback_join es
                     else spec_fallback_join es)"
proof -
  assume ne: "es \<noteq> []"
  consider (one) a where "es = [a]" | (two) a b where "es = [a, b]"
    | (more) a b c r where "es = a # b # c # r"
    using ne by (cases es; cases "tl es"; cases "tl (tl es)") auto
  then show ?thesis
  proof cases
    case one
    then show ?thesis by (simp add: combine_def spec_fallback_join_def)
  next
    case two
    then show ?thesis by (simp add: combine_def spec_fallback_join_def)
  next
    case more
    then have bl: "butlast es \<noteq> []" by simp
    have "py_join '', '' (butlast es) @ '', and '' @ last es
        = (py_join '', '' (butlast es) @ '', '') @ ''and '' @ last es" by simp
    also have "\<dots> = concat (map (\<lambda>d. d @ '', '') (butlast es)) @ ''and '' @ last es"
      by (simp only: join_commas [OF bl])
    finally have "py_join '', '' (butlast es) @ '', and '' @ last es
        = concat (map (\<lambda>d. d @ '', '') (butlast es)) @ ''and '' @ last es" .
    moreover have "spec_fallback_join es = concat (map (\<lambda>d. d @ '', '') (butlast es)) @ ''and '' @ last es"
      using more by (simp add: spec_fallback_join_def)
    moreover have "3 \<le> length es" "length es \<noteq> 1" "length es \<noteq> 2" using more by simp_all
    ultimately show ?thesis using ne by (simp add: combine_def py_last_def)
  qed
qed


lemma py_strip_idem: "py_strip (py_strip s) = py_strip s"
proof -
  define a where "a = dropWhile is_space s"
  define b where "b = dropWhile is_space (rev a)"
  have strip: "py_strip s = rev b" by (simp add: py_strip_def a_def b_def)
  have front: "dropWhile is_space (rev b) = rev b"
  proof (cases "b = []")
    case True
    then show ?thesis by simp
  next
    case False
    then have a_ne: "a \<noteq> []" by (auto simp: b_def)
    have "\<not> is_space (hd a)" using a_ne hd_dropWhile [of is_space s] by (simp add: a_def)
    moreover have "rev a = takeWhile is_space (rev a) @ b" by (simp add: b_def)
    then have "last (rev a) = last b" using False by (metis last_appendR)
    then have "hd (rev b) = hd a" using a_ne False by (simp add: hd_rev last_rev)
    ultimately show ?thesis using False by (simp add: dropWhile_eq_self_iff)
  qed
  have rear: "dropWhile is_space b = b" by (simp add: b_def)
  show ?thesis unfolding strip by (simp add: py_strip_def front rear)
qed

lemma map_of_graph: "map_of (map (\<lambda>k. (k, f k)) ks) c = (if c \<in> set ks then Some (f c) else None)"
  by (induction ks) simp_all

lemma char_mem_codes: "(c \<in> set cs) = ((of_char c :: nat) \<in> set (map of_char cs))"
proof -
  have "((of_char c :: nat) \<in> of_char ` set cs) = (c \<in> set cs)"
    by (rule inj_image_mem_iff) (rule inj_of_char)
  then show ?thesis by simp
qed

lemma spec_case_table_graph:
  "spec_case_table = map (\<lambda>u. (u, char_of ((of_char u :: nat) + 32))) (map fst spec_case_table)"
  by code_simp

lemma spec_case_table_codes:
  "map of_char (map fst spec_case_table) = [65..<91] @ [192..<215] @ [216..<(223::nat)]"
  by code_simp

lemma spec_fold_char_lower: "spec_fold_char c = lower_char c"
proof -
  let ?n = "of_char c :: nat"
  have mem: "(c \<in> set (map fst spec_case_table))
           = ((65 \<le> ?n \<and> ?n \<le> 90) \<or> (192 \<le> ?n \<and> ?n \<le> 222 \<and> ?n \<noteq> 215))"
    unfolding char_mem_codes [of c "map fst spec_case_table"] spec_case_table_codes
    by (simp only: set_append set_upt atLeastLessThan_iff Un_iff) arith
  have "map_of spec_case_table c
      = (if c \<in> set (map fst spec_case_table) then Some (char_of (?n + 32)) else None)"
    using map_of_graph [of "\<lambda>u. char_of ((of_char u :: nat) + 32)" "map fst spec_case_table" c]
    unfolding spec_case_table_graph [symmetric] .
  then show ?thesis unfolding mem by (simp add: spec_fold_char_def lower_char_def Let_def)
qed

lemma spec_whitespace_codes:
  "map of_char spec_whitespace = [9, 10, 11, 12, 13, 28, 29, 30, 31, 32, 133, 160 :: nat]"
  by code_simp

lemma spec_whitespace_is_space: "(c \<in> set spec_whitespace) = is_space c"
  unfolding char_mem_codes [of c spec_whitespace] spec_whitespace_codes is_space_def Let_def
  by (simp only: list.set insert_iff empty_iff) arith

lemma spec_trim_front_dropWhile: "spec_trim_front s = dropWhile is_space s"
  by (induction s) (simp_all add: spec_whitespace_is_space)

lemma spec_trim_rear_dropWhile: "spec_trim_rear s = rev (dropWhile is_space (rev s))"
proof (induction s)
  case Nil
  show ?case by simp
next
  case (Cons c cs)
  show ?case
  proof (cases "\<forall>x\<in>set cs. is_space x")
    case True
    then have r: "spec_trim_rear cs = []" using Cons by simp
    from True have d: "dropWhile is_space (rev cs @ [c]) = (if is_space c then [] else [c])"
      by (simp add: dropWhile_append)
    show ?thesis by (simp add: r d spec_whitespace_is_space)
  next
    case False
    then have "spec_trim_rear cs \<noteq> []" using Cons by simp
    then obtain d ds where t: "spec_trim_rear cs = d # ds"
      by (cases "spec_trim_rear cs") simp_all
    from False have "dropWhile is_space (rev cs @ [c]) = dropWhile is_space (rev cs) @ [c]"
      by (auto simp: dropWhile_append)
    then have "rev (dropWhile is_space (rev (c # cs))) = c # rev (dropWhile is_space (rev cs))"
      by simp
    also have "\<dots> = c # spec_trim_rear cs" by (simp only: Cons)
    finally show ?thesis by (simp add: t)
  qed
qed

lemma spec_normalise_lower_strip: "spec_normalise s = py_strip (py_lower s)"
proof -
  have "map spec_fold_char s = py_lower s"
    by (simp add: py_lower_def spec_fold_char_lower)
  then show ?thesis
    by (simp add: spec_normalise_def py_strip_def spec_trim_front_dropWhile spec_trim_rear_dropWhile)
qed

lemma detailed_as_suffix:
  "explain_ast_nodes tags line = Inr e \<Longrightarrow>
   get_detailed_explanation tags line = Inr (e @ spec_suffix line)"
  by (simp add: get_detailed_explanation_def spec_suffix_def spec_heuristics_def Let_def
      contains_def startswith_def endswith_def py_strip_idem spec_normalise_lower_strip)

lemma spec_suffix_cases:
  "spec_suffix line = '''' \<or> (\<exists>a\<in>set (map snd spec_heuristics). spec_suffix line = '' ('' @ a @ '')'')"
  by (simp add: spec_suffix_def spec_heuristics_def)

lemma patterns_two_nodes:
  "\<forall>p\<in>set patterns. length (fst p) = 2 \<and> distinct (fst p)"
  by (simp add: patterns_def)

lemma single_tag_no_pattern: "match_patterns patterns [tag] = None"
proof -
  have "\<not> set (fst p) \<subseteq> set [tag]" if "p \<in> set patterns" for p
  proof
    assume sub: "set (fst p) \<subseteq> set [tag]"
    from patterns_two_nodes that have "card (set (fst p)) = 2"
      by (simp add: distinct_card)
    moreover from sub have "card (set (fst p)) \<le> card (set [tag])"
      by (intro card_mono) simp_all
    ultimately show False by simp
  qed
  then show ?thesis by (simp only: match_patterns_None_iff) blast
qed

lemma node_explanations_mem:
  "tag \<in> set ns \<Longrightarrow> map_of explanations tag = None \<Longrightarrow>
   ''AST node: '' @ tag \<in> set (node_explanations ns)"
  by (induction ns) (auto split: option.splits)

text \<open>
  Claim C3 (pattern priority). The pattern rules are tried in the order of the catalog:
  when the rule at position \<open>i\<close> has all its required tags in the tag set and no rule
  before it has, the explanation is that rule's text, whatever rules after it would
  also match.
\<close>
theorem pattern_priority:
  assumes "i < length patterns"
    and "set (fst (patterns ! i)) \<subseteq> set tags"
    and "\<forall>j<i. \<not> set (fst (patterns ! j)) \<subseteq> set tags"
  shows "explain_ast_nodes tags line = Inr (snd (patterns ! i))"
proof -
  from assms(1) have "patterns ! i \<in> set patterns" by simp
  with patterns_nonempty have "fst (patterns ! i) \<noteq> []" by blast
  with assms(2) have ne: "tags \<noteq> []" by auto
  have "match_patterns patterns (sort tags) = Some (snd (patterns ! i))"
    using assms by (intro match_patterns_first) simp_all
  with ne show ?thesis by (simp add: explain_ast_nodes_def)
qed

theorem pattern_priority_witness:
  "explain_ast_nodes [''ParmVarDecl'', ''FunctionDecl'', ''DeclRefExpr'', ''CallExpr''] ''''
     = Inr ''defines a function that takes parameters''
   \<and> set (fst (patterns ! 2)) \<subseteq> set [''ParmVarDecl'', ''FunctionDecl'', ''DeclRefExpr'', ''CallExpr'']"
proof -
  have len: "Suc 0 < length patterns" by (simp add: patterns_def)
  have p0: "fst (patterns ! 0) = [''FunctionDecl'', ''CompoundStmt'']"
    and p1: "patterns ! Suc 0 = ([''FunctionDecl'', ''ParmVarDecl''], ''defines a function that takes parameters'')"
    and p2: "fst (patterns ! 2) = [''CallExpr'', ''DeclRefExpr'']"
    by (simp_all add: patterns_def)
  have earlier: "\<forall>j<Suc 0. \<not> set (fst (patterns ! j)) \<subseteq> set [''ParmVarDecl'', ''FunctionDecl'', ''DeclRefExpr'', ''CallExpr'']"
    by (simp add: p0)
  have here: "set (fst (patterns ! Suc 0)) \<subseteq> set [''ParmVarDecl'', ''FunctionDecl'', ''DeclRefExpr'', ''CallExpr'']"
    by (simp add: p1)
  from pattern_priority [OF len here earlier, of "''''"] show ?thesis
    by (simp add: p1 p2)
qed

text \<open>
  Claim C4 (fallback join rule). As stated, three or more descriptions are joined as an
  enumeration with nothing else added; the code puts the word "combines" in front of
  it. The counterexample is a set of three tags no pattern matches.
\<close>
theorem fallback_join_counterexample:
  "match_patterns patterns (sort [''BreakStmt'', ''ContinueStmt'', ''NullStmt'']) = None
   \<and> explain_ast_nodes [''BreakStmt'', ''ContinueStmt'', ''NullStmt''] ''''
      \<noteq> Inr (spec_fallback_join (node_explanations (sort [''BreakStmt'', ''ContinueStmt'', ''NullStmt''])))"
  by code_simp

text \<open>
  Claim C4 as amended: when no pattern rule matches a non-empty tag set, the descriptions
  of the tags in sorted order are combined by the join rule of the specification, and
  for three or more descriptions the word "combines" and a space precede the
  enumeration.
\<close>

theorem fallback_join_rule:
  assumes "tags \<noteq> []"
    and "\<forall>p\<in>set patterns. \<not> set (fst p) \<subseteq> set tags"
  shows "explain_ast_nodes tags line =
           Inr (let ds = node_explanations (sort tags)
                in if 3 \<le> length ds then ''combines '' @ spec_fallback_join ds
                   else spec_fallback_join ds)"
proof -
  have "match_patterns patterns (sort tags) = None"
    using assms(2) by (simp add: match_patterns_None_iff)
  moreover have "node_explanations (sort tags) \<noteq> []"
    using assms(1) length_node_explanations [of "sort tags"] by auto
  ultimately show ?thesis
    using assms(1) by (simp add: explain_ast_nodes_def combine_spec Let_def)
qed

theorem fallback_join_rule_witness:
  "explain_ast_nodes [''ReturnStmt'', ''BreakStmt''] ''''
     = Inr ''breaks out of a loop or switch statement and returns a value from a function''"
proof -
  have "\<forall>p\<in>set patterns. \<not> set (fst p) \<subseteq> set [''ReturnStmt'', ''BreakStmt'']"
    by (simp add: patterns_def)
  moreover have "node_explanations (sort [''ReturnStmt'', ''BreakStmt''])
      = [''breaks out of a loop or switch statement'', ''returns a value from a function'']"
    by code_simp
  ultimately show ?thesis
    using fallback_join_rule [of "[''ReturnStmt'', ''BreakStmt'']" "''''"]
    by (simp add: spec_fallback_join_def)
qed

text \<open>
  Claim C5 (unknown tags). As stated, the description of a tag without a catalog entry
  has the form "unrecognized category: `tag`"; the code writes "AST node: tag".
\<close>
theorem unknown_tag_counterexample:
  "explain_ast_nodes [''UnheardOfNodeXYZ''] '''' = Inr ''AST node: UnheardOfNodeXYZ''
   \<and> explain_ast_nodes [''UnheardOfNodeXYZ''] '''' \<noteq> Inr (spec_unknown_description ''UnheardOfNodeXYZ'')"
  by code_simp

text \<open>
  Claim C5 as amended: the explanation of any tag list is a string, never an exception,
  and a tag without a catalog entry is described as "AST node: " followed by the tag.
\<close>

theorem unknown_tag_description:
  assumes "map_of explanations tag = None"
  shows "(\<exists>s. explain_ast_nodes tags line = Inr s)
       \<and> node_explanations [tag] = [''AST node: '' @ tag]
       \<and> explain_ast_nodes [tag] line = Inr (''AST node: '' @ tag)
       \<and> (tag \<in> set tags \<longrightarrow> ''AST node: '' @ tag \<in> set (node_explanations (sort tags)))"
proof -
  have "explain_ast_nodes [tag] line = Inr (''AST node: '' @ tag)"
    using assms by (simp add: explain_ast_nodes_def single_tag_no_pattern combine_def)
  moreover have "tag \<in> set tags \<longrightarrow> ''AST node: '' @ tag \<in> set (node_explanations (sort tags))"
    using assms node_explanations_mem [of tag "sort tags"] by simp
  ultimately show ?thesis using assms explain_total [of tags line] by simp
qed

theorem unknown_tag_description_witness:
  "explain_ast_nodes [''UnheardOfNodeXYZ''] ''int x;'' = Inr ''AST node: UnheardOfNodeXYZ''
   \<and> ''AST node: UnheardOfNodeXYZ'' \<in> set (node_explanations (sort [''ReturnStmt'', ''UnheardOfNodeXYZ'']))
   \<and> (\<exists>s. explain_ast_nodes [''ReturnStmt'', ''UnheardOfNodeXYZ''] ''int x;'' = Inr s)"
proof -
  have "map_of explanations ''UnheardOfNodeXYZ'' = None" by code_simp
  from unknown_tag_description [OF this, of "[''ReturnStmt'', ''UnheardOfNodeXYZ'']" "''int x;''"]
  show ?thesis by simp
qed

text \<open>
  Claim C8 (contextual suffix). As stated, the heuristics test tokens of the text: an
  input-operation token, an assignment token, a loop header. The code tests characters.
  A statement whose first identifier merely begins with the letters "for" is no loop
  header and gets no annotation from the code; an identifier that merely contains the
  letters "cin" is no input-operation token and gets the input annotation; a "while"
  header that ends with a semicolon is a loop header and gets the assignment
  annotation; and a comparison, which has no assignment token, gets the assignment
  annotation too.
\<close>
theorem detailed_suffix_counterexample:
  "get_detailed_explanation [] ''format = 1;'' = Inr ''''
   \<and> claimed_suffix ''format = 1;'' = '' (assignment or initialization)''
   \<and> get_detailed_explanation [] ''vaccine = 1;'' = Inr '' (performing input operation)''
   \<and> claimed_suffix ''vaccine = 1;'' = '' (assignment or initialization)''
   \<and> get_detailed_explanation [] ''while (x = next());'' = Inr '' (assignment or initialization)''
   \<and> claimed_suffix ''while (x = next());'' = ''''
   \<and> get_detailed_explanation [] ''return a == b;'' = Inr '' (assignment or initialization)''
   \<and> claimed_suffix ''return a == b;'' = ''''"
  by code_simp

text \<open>
  Claim C8 as amended. For every tag list and source line the detailed explanation is
  the plain explanation followed by the suffix of the first of six tests, in order,
  that the case-folded, trimmed text passes, or by nothing when it passes none. The
  tests are tests of characters: the text contains "main("; it begins with "class " or
  "struct "; it begins with "#include"; it contains "cout" or "printf"; it contains
  "cin" or "scanf"; it contains "=", ends with ";" and does not begin with "for". The
  suffix is a function of the text alone, never of the tags.
\<close>
theorem detailed_suffix:
  "\<exists>e. explain_ast_nodes tags line = Inr e
     \<and> get_detailed_explanation tags line = Inr (e @ spec_suffix line)"
  using explain_total [of tags line] detailed_as_suffix by blast

theorem detailed_suffix_witness:
  "get_detailed_explanation [''FunctionDecl''] ([CHR 0x09] @ ''Int MAIN() {  '')
     = Inr ''declares a function with its signature and body (this is the program's entry point)''
   \<and> get_detailed_explanation [''FunctionDecl''] ''Struct Point {''
     = Inr ''declares a function with its signature and body (defining a new data type)''
   \<and> get_detailed_explanation [] (''  #Include <stdio.h>'' @ [CHR 0xA0])
     = Inr '' (including external code)''
   \<and> get_detailed_explanation [] ''std::COUT << x = 1;'' = Inr '' (performing output operation)''
   \<and> get_detailed_explanation [] ''SCANF cout'' = Inr '' (performing output operation)''
   \<and> get_detailed_explanation [] ''x = scanf;'' = Inr '' (performing input operation)''
   \<and> get_detailed_explanation [] ('' X = 5 ;'' @ [CHR 0x0A]) = Inr '' (assignment or initialization)''
   \<and> get_detailed_explanation [] ''  For x = 1;'' = Inr ''''
   \<and> get_detailed_explanation [''FunctionDecl''] ''x = 5''
     = Inr ''declares a function with its signature and body''"
proof -
  have e1: "explain_ast_nodes [''FunctionDecl''] l
            = Inr ''declares a function with its signature and body''" for l
    by code_simp
  have e0: "explain_ast_nodes [] l = Inr ''''" for l
    by (simp add: explain_ast_nodes_def)
  have s: "spec_suffix ([CHR 0x09] @ ''Int MAIN() {  '') = '' (this is the program's entry point)''"
    "spec_suffix ''Struct Point {'' = '' (defining a new data type)''"
    "spec_suffix (''  #Include <stdio.h>'' @ [CHR 0xA0]) = '' (including external code)''"
    "spec_suffix ''std::COUT << x = 1;'' = '' (performing output operation)''"
    "spec_suffix ''SCANF cout'' = '' (performing output operation)''"
    "spec_suffix ''x = scanf;'' = '' (performing input operation)''"
    "spec_suffix ('' X = 5 ;'' @ [CHR 0x0A]) = '' (assignment or initialization)''"
    "spec_suffix ''  For x = 1;'' = ''''"
    "spec_suffix ''x = 5'' = ''''"
    by code_simp+
  show ?thesis
    using detailed_suffix [of "[''FunctionDecl'']" "[CHR 0x09] @ ''Int MAIN() {  ''"]
      detailed_suffix [of "[''FunctionDecl'']" "''Struct Point {''"]
      detailed_suffix [of "[]" "''  #Include <stdio.h>'' @ [CHR 0xA0]"]
      detailed_suffix [of "[]" "''std::COUT << x = 1;''"]
      detailed_suffix [of "[]" "''SCANF cout''"]
      detailed_suffix [of "[]" "''x = scanf;''"]
      detailed_suffix [of "[]" "'' X = 5 ;'' @ [CHR 0x0A]"]
      detailed_suffix [of "[]" "''  For x = 1;''"]
      detailed_suffix [of "[''FunctionDecl'']" "''x = 5''"]
    unfolding e1 e0 s by simp
qed

text \<open>
  Claim C9 (detailed extends plain). Neither explanation raises; the plain explanation
  is a prefix of the detailed one, which adds nothing or one parenthesised annotation
  of the six; for no tags and a text no heuristic matches both are empty.
\<close>
theorem detailed_extends_plain:
  "\<exists>p d. explain_ast_nodes tags line = Inr p
       \<and> get_detailed_explanation tags line = Inr d
       \<and> prefix p d
       \<and> (d = p \<or> (\<exists>a\<in>set (map snd spec_heuristics). d = p @ '' ('' @ a @ '')''))
       \<and> (tags = [] \<and> find (\<lambda>(h, a). h (py_strip (py_lower line))) spec_heuristics = None
            \<longrightarrow> p = '''' \<and> d = '''')"
proof -
  obtain p where p: "explain_ast_nodes tags line = Inr p" using explain_total by blast
  then have d: "get_detailed_explanation tags line = Inr (p @ spec_suffix line)"
    by (rule detailed_as_suffix)
  have "p @ spec_suffix line = p \<or>
        (\<exists>a\<in>set (map snd spec_heuristics). p @ spec_suffix line = p @ '' ('' @ a @ '')'')"
    using spec_suffix_cases [of line] by auto
  moreover have "tags = [] \<and> find (\<lambda>(h, a). h (py_strip (py_lower line))) spec_heuristics = None
            \<longrightarrow> p = '''' \<and> p @ spec_suffix line = ''''"
    using p by (auto simp: explain_ast_nodes_def spec_suffix_def spec_normalise_lower_strip)
  ultimately show ?thesis using p d by (intro exI [of _ p] exI [of _ "p @ spec_suffix line"]) simp
qed


theorem detailed_extends_plain_witness:
  "explain_ast_nodes [] ''}'' = Inr ''''
   \<and> get_detailed_explanation [] ''}'' = Inr ''''
   \<and> find (\<lambda>(h, a). h (py_strip (py_lower ''}''))) spec_heuristics = None"
proof -
  have none: "find (\<lambda>(h, a). h (py_strip (py_lower ''}''))) spec_heuristics = None"
    by code_simp
  from detailed_extends_plain [of "[]" "''}''"] obtain p d
    where "explain_ast_nodes [] ''}'' = Inr p"
      and "get_detailed_explanation [] ''}'' = Inr d"
      and "[] = ([] :: string list) \<and> find (\<lambda>(h, a). h (py_strip (py_lower ''}''))) spec_heuristics = None
           \<longrightarrow> p = '''' \<and> d = ''''"
    by blast
  with none show ?thesis by simp
qed

section \<open>The correlation engine\<close>

lemma py_in_set_key: "hashable k \<Longrightarrow> py_in (set_key k) names = py_in k names"
  by (cases k) (simp_all add: py_in_def)

lemma should_include_set_key:
  "hashable k \<Longrightarrow> should_include_node (set_key k) cfg = should_include_node k cfg"
  by (simp add: should_include_node_def py_in_set_key)

lemma add_kind_sound:
  assumes "filter_sound cfg m" and "should_include_node k cfg = Inr True"
    and "add_kind m n k = Inr m'"
  shows "filter_sound cfg m'"
proof -
  from assms(3) have h: "hashable k"
    and m': "m' = m(n \<mapsto> insert (set_key k) (case m n of None \<Rightarrow> {} | Some s \<Rightarrow> s))"
    by (auto simp: add_kind_def split: if_splits)
  have k: "should_include_node (set_key k) cfg = Inr True"
    using h assms(2) by (simp add: should_include_set_key)
  show ?thesis
    unfolding filter_sound_def
  proof (intro allI impI)
    fix L s t assume L: "m' L = Some s" and t: "t \<in> s"
    show "should_include_node t cfg = Inr True"
    proof (cases "L = n")
      case False
      with L m' have "m L = Some s" by simp
      with assms(1) t show ?thesis unfolding filter_sound_def by blast
    next
      case True
      with L m' have s: "s = insert (set_key k) (case m n of None \<Rightarrow> {} | Some s \<Rightarrow> s)" by simp
      show ?thesis
      proof (cases "t = set_key k")
        case True
        with k show ?thesis by simp
      next
        case False
        with s t obtain s0 where "m n = Some s0" "t \<in> s0" by (cases "m n") auto
        with assms(1) show ?thesis unfolding filter_sound_def by blast
      qed
    qed
  qed
qed

lemma add_if_included_sound:
  "filter_sound cfg m \<Longrightarrow> add_if_included cfg m n k = Inr m' \<Longrightarrow> filter_sound cfg m'"
  unfolding add_if_included_def
  by (cases "should_include_node k cfg") (auto split: if_splits intro: add_kind_sound)

lemma process_location_cases:
  "process_location cwd m t cfg loc k
     \<in> {Inr m, Inl TypeError} \<union> range (\<lambda>n. add_if_included cfg m n k)"
  unfolding process_location_def Let_def
  by (simp split: json.split option.split)

lemma process_location_sound:
  assumes "filter_sound cfg m" and "process_location cwd m t cfg loc k = Inr m'"
  shows "filter_sound cfg m'"
proof -
  from process_location_cases [of cwd m t cfg loc k] assms(2)
  consider "m' = m" | n where "add_if_included cfg m n k = Inr m'"
    by auto
  then show ?thesis
    using assms(1) by cases (auto dest: add_if_included_sound)
qed

lemma process_location_opt_sound:
  "filter_sound cfg m \<Longrightarrow>
   (if c then process_location cwd m t cfg loc k else Inr m) = Inr m' \<Longrightarrow> filter_sound cfg m'"
  by (cases c) (auto dest: process_location_sound)

lemma process_range_sound:
  assumes "filter_sound cfg m" and "process_range cwd m t cfg rng k = Inr m'"
  shows "filter_sound cfg m'"
proof (cases "\<exists>r. rng = JObj r \<and> r \<noteq> []")
  case False
  then have "process_range cwd m t cfg rng k = Inr m"
    by (cases rng) (simp_all add: process_range_def)
  with assms show ?thesis by simp
next
  case True
  then obtain r where r: "rng = JObj r" "r \<noteq> []" by blast
  let ?b = "dict_get r ''begin'' JNull"
  let ?e = "dict_get r ''end'' JNull"
  let ?first = "if truthy ?b then process_location cwd m t cfg ?b k else Inr m"
  have run: "(case ?first of Inl err \<Rightarrow> Inl err
              | Inr m2 \<Rightarrow> (if truthy ?e \<and> \<not> py_eq ?e ?b
                   then process_location cwd m2 t cfg ?e k else Inr m2)) = Inr m'"
    using assms(2) r unfolding process_range_def Let_def by simp
  then obtain m2 where m2: "?first = Inr m2" by (cases ?first) simp_all
  have s2: "filter_sound cfg m2"
    using assms(1) m2 by (rule process_location_opt_sound)
  from run have "(if truthy ?e \<and> \<not> py_eq ?e ?b
      then process_location cwd m2 t cfg ?e k else Inr m2) = Inr m'"
    unfolding m2 by simp
  with s2 show ?thesis by (rule process_location_opt_sound)
qed

lemma process_node_sound:
  assumes "filter_sound cfg m" and "process_node cwd m t cfg node = Inr m'"
  shows "filter_sound cfg m'"
proof -
  let ?kind = "dict_get node ''kind'' JNull"
  let ?loc = "dict_get node ''loc'' JNull"
  let ?first = "if truthy ?loc then process_location cwd m t cfg ?loc ?kind else Inr m"
  have run: "(case ?first of Inl err \<Rightarrow> Inl err
              | Inr m1 \<Rightarrow> process_range cwd m1 t cfg (dict_get node ''range'' JNull) ?kind)
             = Inr m'"
    using assms(2) unfolding process_node_def Let_def by simp
  then obtain m1 where m1: "?first = Inr m1" by (cases ?first) simp_all
  have "filter_sound cfg m1"
    using assms(1) m1 by (rule process_location_opt_sound)
  moreover from run have "process_range cwd m1 t cfg (dict_get node ''range'' JNull) ?kind = Inr m'"
    unfolding m1 by simp
  ultimately show ?thesis by (rule process_range_sound)
qed

section \<open>Locations, ranges and nodes\<close>

lemma line_of_dict_nonempty: "line_of (dict_get d ''line'' JNull) = Some n \<Longrightarrow> d \<noteq> []"
  by (auto simp: dict_get_def)

lemma add_if_included_admit:
  "add_if_included cfg m n k =
     (case admit cfg k n of Inl err \<Rightarrow> Inl err | Inr tgt \<Rightarrow> Inr (register_at k m tgt))"
  by (simp add: add_if_included_def admit_def add_kind_def register_at_def tags_at_def
      split: sum.split)

lemma process_location_target:
  "process_location cwd m t cfg loc k =
     (case location_target cwd t cfg loc k of
        Inl err \<Rightarrow> Inl err
      | Inr tgt \<Rightarrow> Inr (register_at k m tgt))"
proof (cases loc)
  case (JObj d)
  show ?thesis
  proof (cases "line_of (dict_get d ''line'' JNull)")
    case None
    then show ?thesis
      using JObj by (simp add: process_location_def location_target_def loc_line_def
          register_at_def Let_def)
  next
    case (Some n)
    then have ne: "d \<noteq> []" by (rule line_of_dict_nonempty)
    show ?thesis
    proof (cases "truthy k")
      case False
      then show ?thesis
        using JObj Some ne by (simp add: process_location_def location_target_def loc_line_def
            register_at_def Let_def)
    next
      case True
      show ?thesis
      proof (cases "truthy (dict_get d ''file'' (JStr ''''))")
        case False
        then show ?thesis
          using JObj Some ne True
          by (simp add: process_location_def location_target_def loc_line_def loc_file_def
              Let_def add_if_included_admit)
      next
        case tf: True
        show ?thesis
        proof (cases "dict_get d ''file'' (JStr '''')")
          case (JStr f)
          then show ?thesis
            using JObj Some ne True tf
            by (simp add: process_location_def location_target_def loc_line_def loc_file_def
                Let_def add_if_included_admit spec_denotes_target_def register_at_def)
        qed (use JObj Some ne True tf in
            \<open>simp_all add: process_location_def location_target_def loc_line_def loc_file_def Let_def\<close>)
      qed
    qed
  qed
qed (simp_all add: process_location_def location_target_def loc_line_def register_at_def)


lemma location_target_line:
  "location_target cwd t cfg loc k = Inr (Some n) \<Longrightarrow> loc_line loc = Some n"
  by (auto simp: location_target_def admit_def split: option.splits if_splits json.splits sum.splits)

lemma location_target_falsy:
  "\<not> truthy loc \<Longrightarrow> location_target cwd t cfg loc k = Inr None"
  by (cases loc) (simp_all add: location_target_def loc_line_def dict_get_def)

lemma process_location_guard:
  "(if truthy loc then process_location cwd m t cfg loc k else Inr m)
     = process_location cwd m t cfg loc k"
  by (simp add: process_location_target location_target_falsy register_at_def)

lemma register_at_idem: "register_at k (register_at k m tgt) tgt = register_at k m tgt"
  by (cases tgt) (simp_all add: register_at_def tags_at_def)

lemma register_at_other:
  "Some L \<noteq> tgt \<Longrightarrow> register_at k m tgt L = m L"
  by (cases tgt) (auto simp: register_at_def)

lemma tags_at_register_at:
  "tags_at (register_at k m tgt) L \<subseteq> insert (set_key k) (tags_at m L)"
  by (cases tgt) (auto simp: register_at_def tags_at_def)

lemma register_at_absorb:
  "register_at k (register_at k (register_at k m a) b) a = register_at k (register_at k m a) b"
  "register_at k (register_at k (register_at k m a) b) b = register_at k (register_at k m a) b"
  by (cases a; cases b; auto simp: register_at_def tags_at_def fun_eq_iff)+

lemma py_eq_truthy: "py_eq v w \<Longrightarrow> truthy v = truthy w"
proof (cases v)
  case (JArr xs)
  assume "py_eq v w"
  with JArr show ?thesis by (cases w; cases xs) (auto split: list.splits)
next
  case (JObj d)
  assume e: "py_eq v w"
  with JObj obtain e' where w: "w = JObj e'" by (cases w) simp_all
  from e JObj w have items: "py_eq_items d e'"
    and keys: "list_all (\<lambda>(k, x). map_of d k \<noteq> None) e'" by simp_all
  have "d = [] \<longleftrightarrow> e' = []"
  proof
    assume "d = []"
    with keys show "e' = []" by (cases e') auto
  next
    assume "e' = []"
    with items show "d = []" by (cases d) auto
  qed
  with JObj w show ?thesis by simp
qed (cases w; auto)+

lemma py_eq_line_of: "py_eq v w \<Longrightarrow> line_of v = line_of w"
  by (cases v; cases w) auto

lemma py_eq_JStr: "py_eq v w \<Longrightarrow> (v = JStr f) = (w = JStr f)"
  by (cases v; cases w) auto

lemma py_eq_items_lookup:
  "py_eq_items d e \<Longrightarrow> (k, v) \<in> set d \<Longrightarrow> \<exists>w. map_of e k = Some w \<and> py_eq v w"
  by (induction d) (auto split: option.splits)

lemma py_eq_dict_get:
  assumes "py_eq (JObj d) (JObj e)"
  shows "(map_of d k = None \<and> map_of e k = None)
       \<or> (\<exists>v w. map_of d k = Some v \<and> map_of e k = Some w \<and> py_eq v w)"
proof (cases "map_of d k")
  case None
  have "map_of e k = None"
  proof (rule ccontr)
    assume "map_of e k \<noteq> None"
    then obtain w where "map_of e k = Some w" by blast
    then have "(k, w) \<in> set e" by (rule map_of_SomeD)
    moreover from assms have "list_all (\<lambda>(k, x). map_of d k \<noteq> None) e" by simp
    ultimately have "map_of d k \<noteq> None" by (auto simp: list_all_iff)
    with None show False by simp
  qed
  with None show ?thesis by simp
next
  case (Some v)
  then have "(k, v) \<in> set d" by (rule map_of_SomeD)
  moreover from assms have "py_eq_items d e" by simp
  ultimately obtain w where "map_of e k = Some w" "py_eq v w"
    using py_eq_items_lookup by blast
  with Some show ?thesis by simp
qed

lemma py_eq_dict_shape: "py_eq (JObj d) b \<Longrightarrow> \<exists>e. b = JObj e"
  by (cases b) simp_all

lemma py_eq_not_dict:
  "py_eq a b \<Longrightarrow> \<forall>d. a \<noteq> JObj d \<Longrightarrow> \<forall>e. b \<noteq> JObj e"
  by (cases a; cases b) auto

lemma py_eq_loc_line: "py_eq a b \<Longrightarrow> loc_line a = loc_line b"
proof (cases "\<exists>d. a = JObj d")
  case True
  assume e: "py_eq a b"
  from True obtain d where a: "a = JObj d" by blast
  with e obtain e' where b: "b = JObj e'" using py_eq_dict_shape by blast
  from e a b have "py_eq (JObj d) (JObj e')" by simp
  from py_eq_dict_get [OF this, of "''line''"]
  have "line_of (dict_get d ''line'' JNull) = line_of (dict_get e' ''line'' JNull)"
  proof (elim disjE conjE exE)
    fix v w assume "map_of d ''line'' = Some v" "map_of e' ''line'' = Some w" "py_eq v w"
    then show ?thesis using py_eq_line_of [of v w] by (simp add: dict_get_def)
  qed (simp add: dict_get_def)
  with a b show ?thesis by (simp add: loc_line_def)
next
  case False
  assume e: "py_eq a b"
  from False have na: "\<forall>d. a \<noteq> JObj d" by blast
  with e have nb: "\<forall>d. b \<noteq> JObj d" by (rule py_eq_not_dict)
  from na have "loc_line a = None" by (cases a) (simp_all add: loc_line_def)
  moreover from nb have "loc_line b = None" by (cases b) (simp_all add: loc_line_def)
  ultimately show ?thesis by simp
qed

lemma py_eq_loc_file:
  assumes "py_eq a b"
  shows "truthy (loc_file a) = truthy (loc_file b)
       \<and> (\<forall>f. (loc_file a = JStr f) = (loc_file b = JStr f))"
proof (cases "\<exists>d. a = JObj d")
  case True
  then obtain d where a: "a = JObj d" by blast
  with assms obtain e' where b: "b = JObj e'" using py_eq_dict_shape by blast
  from assms a b have "py_eq (JObj d) (JObj e')" by simp
  from py_eq_dict_get [OF this, of "''file''"]
  have "truthy (dict_get d ''file'' (JStr '''')) = truthy (dict_get e' ''file'' (JStr ''''))
      \<and> (\<forall>f. (dict_get d ''file'' (JStr '''') = JStr f)
             = (dict_get e' ''file'' (JStr '''') = JStr f))"
  proof (elim disjE conjE exE)
    fix v w assume "map_of d ''file'' = Some v" "map_of e' ''file'' = Some w" "py_eq v w"
    then show ?thesis
      using py_eq_truthy [of v w] py_eq_JStr [of v w] by (simp add: dict_get_def)
  qed (simp add: dict_get_def)
  with a b show ?thesis by (simp add: loc_file_def)
next
  case False
  then have na: "\<forall>d. a \<noteq> JObj d" by blast
  with assms have nb: "\<forall>d. b \<noteq> JObj d" by (rule py_eq_not_dict)
  from na have "loc_file a = JStr ''''" by (cases a) (simp_all add: loc_file_def)
  moreover from nb have "loc_file b = JStr ''''" by (cases b) (simp_all add: loc_file_def)
  ultimately show ?thesis by simp
qed

lemma case_JStr_other:
  "\<forall>f. v \<noteq> JStr f \<Longrightarrow> (case v of JStr f \<Rightarrow> g f | _ \<Rightarrow> c) = c"
  by (cases v) simp_all

lemma case_JStr_cong:
  assumes "\<forall>f. (v = JStr f) = (w = JStr f)"
  shows "(case v of JStr f \<Rightarrow> g f | _ \<Rightarrow> c) = (case w of JStr f \<Rightarrow> g f | _ \<Rightarrow> c)"
proof (cases "\<exists>f. v = JStr f")
  case True
  then obtain f where v: "v = JStr f" by blast
  with assms have "w = JStr f" by blast
  with v show ?thesis by simp
next
  case False
  then have nv: "\<forall>f. v \<noteq> JStr f" by blast
  with assms have nw: "\<forall>f. w \<noteq> JStr f" by blast
  show ?thesis by (simp only: case_JStr_other [OF nv] case_JStr_other [OF nw])
qed

lemma py_eq_location_target:
  assumes "py_eq a b"
  shows "location_target cwd t cfg a k = location_target cwd t cfg b k"
proof -
  have l: "loc_line a = loc_line b" using assms by (rule py_eq_loc_line)
  have tf: "truthy (loc_file a) = truthy (loc_file b)"
    and fs: "\<forall>f. (loc_file a = JStr f) = (loc_file b = JStr f)"
    using py_eq_loc_file [OF assms] by simp_all
  have c: "(case loc_file a of JStr f \<Rightarrow>
               if spec_denotes_target cwd t f then admit cfg k n else Inr None
            | _ \<Rightarrow> Inl TypeError)
         = (case loc_file b of JStr f \<Rightarrow>
               if spec_denotes_target cwd t f then admit cfg k n else Inr None
            | _ \<Rightarrow> Inl TypeError)" for n
    using fs by (rule case_JStr_cong)
  show ?thesis by (simp only: location_target_def l tf c)
qed

lemma register_nodes_append:
  "register_nodes cwd (xs @ ys) m t cfg =
     (case register_nodes cwd xs m t cfg of
        Inl err \<Rightarrow> Inl err
      | Inr m1 \<Rightarrow> register_nodes cwd ys m1 t cfg)"
  by (induction xs arbitrary: m) (auto split: sum.splits)

lemma process_node_fields:
  "process_node cwd m t cfg node =
   process_node cwd m t cfg
     [(''kind'', dict_get node ''kind'' JNull),
      (''loc'', dict_get node ''loc'' JNull),
      (''range'', dict_get node ''range'' JNull)]"
proof -
  let ?n = "[(''kind'', dict_get node ''kind'' JNull),
      (''loc'', dict_get node ''loc'' JNull),
      (''range'', dict_get node ''range'' JNull)]"
  have k: "dict_get ?n ''kind'' JNull = dict_get node ''kind'' JNull"
    and l: "dict_get ?n ''loc'' JNull = dict_get node ''loc'' JNull"
    and r: "dict_get ?n ''range'' JNull = dict_get node ''range'' JNull"
    by (simp_all add: dict_get_def)
  show ?thesis unfolding process_node_def by (simp only: k l r)
qed

lemma range_dict: "r \<noteq> [] \<Longrightarrow> range_begin (JObj r) = dict_get r ''begin'' JNull"
  "r \<noteq> [] \<Longrightarrow> range_end (JObj r) = dict_get r ''end'' JNull"
  by (simp_all add: range_begin_def range_end_def)

lemma range_no_dict:
  "\<not> (\<exists>r. rng = JObj r \<and> r \<noteq> []) \<Longrightarrow> range_begin rng = JNull \<and> range_end rng = JNull"
  by (cases rng) (auto simp: range_begin_def range_end_def dict_get_def)

lemma location_target_JNull: "location_target cwd t cfg JNull k = Inr None"
  by (simp add: location_target_falsy)

lemma end_step:
  assumes b: "location_target cwd t cfg b k = Inr tb"
  shows "(if truthy e \<and> \<not> py_eq e b
          then process_location cwd (register_at k m tb) t cfg e k
          else Inr (register_at k m tb))
       = (case location_target cwd t cfg e k of
            Inl err \<Rightarrow> Inl err
          | Inr te \<Rightarrow> Inr (register_at k (register_at k m tb) te))"
proof (cases "truthy e")
  case False
  then show ?thesis by (simp add: location_target_falsy register_at_def)
next
  case True
  show ?thesis
  proof (cases "py_eq e b")
    case False
    with True show ?thesis by (simp add: process_location_target)
  next
    case eq: True
    then have "location_target cwd t cfg e k = Inr tb"
      using b by (simp add: py_eq_location_target)
    with True eq show ?thesis by (simp add: register_at_idem)
  qed
qed

lemma process_range_target:
  "process_range cwd m t cfg rng k =
     (case location_target cwd t cfg (range_begin rng) k of
        Inl err \<Rightarrow> Inl err
      | Inr tb \<Rightarrow>
          (case location_target cwd t cfg (range_end rng) k of
             Inl err \<Rightarrow> Inl err
           | Inr te \<Rightarrow> Inr (register_at k (register_at k m tb) te)))"
proof (cases "\<exists>r. rng = JObj r \<and> r \<noteq> []")
  case False
  then have "process_range cwd m t cfg rng k = Inr m"
    by (cases rng) (simp_all add: process_range_def)
  moreover from False have "range_begin rng = JNull" "range_end rng = JNull"
    using range_no_dict by blast+
  ultimately show ?thesis by (simp add: location_target_JNull register_at_def)
next
  case True
  then obtain r where r: "rng = JObj r" "r \<noteq> []" by blast
  let ?b = "dict_get r ''begin'' JNull"
  let ?e = "dict_get r ''end'' JNull"
  have run: "process_range cwd m t cfg (JObj r) k =
      (case process_location cwd m t cfg ?b k of
         Inl err \<Rightarrow> Inl err
       | Inr m2 \<Rightarrow> (if truthy ?e \<and> \<not> py_eq ?e ?b
            then process_location cwd m2 t cfg ?e k else Inr m2))"
    using r unfolding process_range_def Let_def
    by (simp only: process_location_guard json.case if_False)
  show ?thesis
  proof (cases "location_target cwd t cfg ?b k")
    case (Inl err)
    then show ?thesis using r by (simp add: run process_location_target range_dict)
  next
    case (Inr tb)
    then have "process_range cwd m t cfg (JObj r) k =
        (if truthy ?e \<and> \<not> py_eq ?e ?b
         then process_location cwd (register_at k m tb) t cfg ?e k
         else Inr (register_at k m tb))"
      by (simp add: run process_location_target)
    also have "\<dots> = (case location_target cwd t cfg ?e k of
            Inl err \<Rightarrow> Inl err
          | Inr te \<Rightarrow> Inr (register_at k (register_at k m tb) te))"
      using Inr by (rule end_step)
    finally show ?thesis using r Inr by (simp add: range_dict)
  qed
qed

lemma process_node_target:
  "process_node cwd m t cfg node =
     (case location_target cwd t cfg (dict_get node ''loc'' JNull) (dict_get node ''kind'' JNull) of
        Inl err \<Rightarrow> Inl err
      | Inr tgl \<Rightarrow>
          (case location_target cwd t cfg (range_begin (dict_get node ''range'' JNull))
                  (dict_get node ''kind'' JNull) of
             Inl err \<Rightarrow> Inl err
           | Inr tb \<Rightarrow>
               (case location_target cwd t cfg (range_end (dict_get node ''range'' JNull))
                       (dict_get node ''kind'' JNull) of
                  Inl err \<Rightarrow> Inl err
                | Inr te \<Rightarrow>
                    Inr (register_at (dict_get node ''kind'' JNull)
                          (register_at (dict_get node ''kind'' JNull)
                            (register_at (dict_get node ''kind'' JNull) m tgl) tb) te))))"
  unfolding process_node_def Let_def process_location_guard
  unfolding process_location_target process_range_target
  by (simp split: sum.split)

lemma process_node_result:
  assumes "process_node cwd m t cfg node = Inr m'"
  obtains tgl tb te where
    "location_target cwd t cfg (dict_get node ''loc'' JNull) (dict_get node ''kind'' JNull) = Inr tgl"
    "location_target cwd t cfg (range_begin (dict_get node ''range'' JNull))
        (dict_get node ''kind'' JNull) = Inr tb"
    "location_target cwd t cfg (range_end (dict_get node ''range'' JNull))
        (dict_get node ''kind'' JNull) = Inr te"
    "m' = register_at (dict_get node ''kind'' JNull)
            (register_at (dict_get node ''kind'' JNull)
              (register_at (dict_get node ''kind'' JNull) m tgl) tb) te"
  using assms unfolding process_node_target
  by (auto split: sum.splits)

lemma collect_returns:
  "\<forall>depth m m'. collect_line_annotations cwd depth j m t cfg = Inr m'
      \<longrightarrow> register_nodes cwd (nodes_of j) m t cfg = Inr m'"
  "\<forall>depth m m'. collect_values cwd depth d m t cfg = Inr m'
      \<longrightarrow> register_nodes cwd (nodes_of_values d) m t cfg = Inr m'"
  "\<forall>depth m m'. collect_items cwd depth xs m t cfg = Inr m'
      \<longrightarrow> register_nodes cwd (nodes_of_items xs) m t cfg = Inr m'"
proof (induction j and d and xs rule: nodes_of_nodes_of_values_nodes_of_items.induct)
  case (1 d)
  show ?case
  proof (intro allI impI)
    fix depth m m'
    assume run: "collect_line_annotations cwd depth (JObj d) m t cfg = Inr m'"
    then obtain k where k: "depth = Suc k" by (cases depth) simp_all
    from run k obtain m1 where m1: "process_node cwd m t cfg d = Inr m1"
      and rest: "collect_values cwd k d m1 t cfg = Inr m'"
      by (cases "process_node cwd m t cfg d") simp_all
    from 1 rest have "register_nodes cwd (nodes_of_values d) m1 t cfg = Inr m'" by blast
    with m1 show "register_nodes cwd (nodes_of (JObj d)) m t cfg = Inr m'" by simp
  qed
next
  case (2 xs)
  show ?case
  proof (intro allI impI)
    fix depth m m'
    assume run: "collect_line_annotations cwd depth (JArr xs) m t cfg = Inr m'"
    then obtain k where k: "depth = Suc k" by (cases depth) simp_all
    with run have "collect_items cwd k xs m t cfg = Inr m'" by simp
    with 2 show "register_nodes cwd (nodes_of (JArr xs)) m t cfg = Inr m'" by simp
  qed
next
  case 3
  show ?case
  proof (intro allI impI)
    fix depth m m'
    assume "collect_line_annotations cwd depth JNull m t cfg = Inr m'"
    then show "register_nodes cwd (nodes_of JNull) m t cfg = Inr m'" by (cases depth) simp_all
  qed
next
  case (4 b)
  show ?case
  proof (intro allI impI)
    fix depth m m'
    assume "collect_line_annotations cwd depth (JBool b) m t cfg = Inr m'"
    then show "register_nodes cwd (nodes_of (JBool b)) m t cfg = Inr m'"
      by (cases depth) simp_all
  qed
next
  case (5 n)
  show ?case
  proof (intro allI impI)
    fix depth m m'
    assume "collect_line_annotations cwd depth (JInt n) m t cfg = Inr m'"
    then show "register_nodes cwd (nodes_of (JInt n)) m t cfg = Inr m'"
      by (cases depth) simp_all
  qed
next
  case (6 s)
  show ?case
  proof (intro allI impI)
    fix depth m m'
    assume "collect_line_annotations cwd depth (JStr s) m t cfg = Inr m'"
    then show "register_nodes cwd (nodes_of (JStr s)) m t cfg = Inr m'"
      by (cases depth) simp_all
  qed
next
  case 7
  show ?case by simp
next
  case (8 k v rest)
  show ?case
  proof (intro allI impI)
    fix depth m m'
    assume run: "collect_values cwd depth ((k, v) # rest) m t cfg = Inr m'"
    then obtain m1 where m1: "collect_line_annotations cwd depth v m t cfg = Inr m1"
      and rest: "collect_values cwd depth rest m1 t cfg = Inr m'"
      by (cases "collect_line_annotations cwd depth v m t cfg") simp_all
    from 8(1) m1 have "register_nodes cwd (nodes_of v) m t cfg = Inr m1" by blast
    moreover from 8(2) rest have "register_nodes cwd (nodes_of_values rest) m1 t cfg = Inr m'"
      by blast
    ultimately show "register_nodes cwd (nodes_of_values ((k, v) # rest)) m t cfg = Inr m'"
      by (simp add: register_nodes_append)
  qed
next
  case 9
  show ?case by simp
next
  case (10 x rest)
  show ?case
  proof (intro allI impI)
    fix depth m m'
    assume run: "collect_items cwd depth (x # rest) m t cfg = Inr m'"
    then obtain m1 where m1: "collect_line_annotations cwd depth x m t cfg = Inr m1"
      and rest: "collect_items cwd depth rest m1 t cfg = Inr m'"
      by (cases "collect_line_annotations cwd depth x m t cfg") simp_all
    from 10(1) m1 have "register_nodes cwd (nodes_of x) m t cfg = Inr m1" by blast
    moreover from 10(2) rest have "register_nodes cwd (nodes_of_items rest) m1 t cfg = Inr m'"
      by blast
    ultimately show "register_nodes cwd (nodes_of_items (x # rest)) m t cfg = Inr m'"
      by (simp add: register_nodes_append)
  qed
qed

lemma collect_enough_depth:
  "\<forall>depth m. nesting j \<le> depth
      \<longrightarrow> collect_line_annotations cwd depth j m t cfg = register_nodes cwd (nodes_of j) m t cfg"
  "\<forall>depth m. nesting_values d \<le> depth
      \<longrightarrow> collect_values cwd depth d m t cfg = register_nodes cwd (nodes_of_values d) m t cfg"
  "\<forall>depth m. nesting_items xs \<le> depth
      \<longrightarrow> collect_items cwd depth xs m t cfg = register_nodes cwd (nodes_of_items xs) m t cfg"
proof (induction j and d and xs rule: nodes_of_nodes_of_values_nodes_of_items.induct)
  case (1 d)
  show ?case
  proof (intro allI impI)
    fix depth m
    assume "nesting (JObj d) \<le> depth"
    then obtain k where k: "depth = Suc k" and le: "nesting_values d \<le> k"
      by (cases depth) simp_all
    from 1 le have "collect_values cwd k d m1 t cfg
        = register_nodes cwd (nodes_of_values d) m1 t cfg" for m1 by blast
    then show "collect_line_annotations cwd depth (JObj d) m t cfg
        = register_nodes cwd (nodes_of (JObj d)) m t cfg"
      using k by (simp split: sum.split)
  qed
next
  case (2 xs)
  show ?case
  proof (intro allI impI)
    fix depth m
    assume "nesting (JArr xs) \<le> depth"
    then obtain k where k: "depth = Suc k" and le: "nesting_items xs \<le> k"
      by (cases depth) simp_all
    with 2 show "collect_line_annotations cwd depth (JArr xs) m t cfg
        = register_nodes cwd (nodes_of (JArr xs)) m t cfg" by simp
  qed
next
  case 3
  show ?case
  proof (intro allI impI)
    fix depth :: nat and m :: line_map
    assume "nesting JNull \<le> depth"
    then show "collect_line_annotations cwd depth JNull m t cfg
        = register_nodes cwd (nodes_of JNull) m t cfg" by (cases depth) simp_all
  qed
next
  case (4 b)
  show ?case
  proof (intro allI impI)
    fix depth :: nat and m :: line_map
    assume "nesting (JBool b) \<le> depth"
    then show "collect_line_annotations cwd depth (JBool b) m t cfg
        = register_nodes cwd (nodes_of (JBool b)) m t cfg" by (cases depth) simp_all
  qed
next
  case (5 n)
  show ?case
  proof (intro allI impI)
    fix depth :: nat and m :: line_map
    assume "nesting (JInt n) \<le> depth"
    then show "collect_line_annotations cwd depth (JInt n) m t cfg
        = register_nodes cwd (nodes_of (JInt n)) m t cfg" by (cases depth) simp_all
  qed
next
  case (6 s)
  show ?case
  proof (intro allI impI)
    fix depth :: nat and m :: line_map
    assume "nesting (JStr s) \<le> depth"
    then show "collect_line_annotations cwd depth (JStr s) m t cfg
        = register_nodes cwd (nodes_of (JStr s)) m t cfg" by (cases depth) simp_all
  qed
next
  case 7
  show ?case by simp
next
  case (8 k v rest)
  show ?case
  proof (intro allI impI)
    fix depth m
    assume "nesting_values ((k, v) # rest) \<le> depth"
    then have a: "nesting v \<le> depth" and b: "nesting_values rest \<le> depth" by simp_all
    from 8(1) a have "collect_line_annotations cwd depth v m t cfg
        = register_nodes cwd (nodes_of v) m t cfg" by blast
    moreover from 8(2) b have "collect_values cwd depth rest m1 t cfg
        = register_nodes cwd (nodes_of_values rest) m1 t cfg" for m1 by blast
    ultimately show "collect_values cwd depth ((k, v) # rest) m t cfg
        = register_nodes cwd (nodes_of_values ((k, v) # rest)) m t cfg"
      by (simp add: register_nodes_append split: sum.split)
  qed
next
  case 9
  show ?case by simp
next
  case (10 x rest)
  show ?case
  proof (intro allI impI)
    fix depth m
    assume "nesting_items (x # rest) \<le> depth"
    then have a: "nesting x \<le> depth" and b: "nesting_items rest \<le> depth" by simp_all
    from 10(1) a have "collect_line_annotations cwd depth x m t cfg
        = register_nodes cwd (nodes_of x) m t cfg" by blast
    moreover from 10(2) b have "collect_items cwd depth rest m1 t cfg
        = register_nodes cwd (nodes_of_items rest) m1 t cfg" for m1 by blast
    ultimately show "collect_items cwd depth (x # rest) m t cfg
        = register_nodes cwd (nodes_of_items (x # rest)) m t cfg"
      by (simp add: register_nodes_append split: sum.split)
  qed
qed

lemma collect_too_deep:
  "collect_line_annotations cwd depth (nested_list (Suc depth) j) m t cfg = Inl RecursionError"
  by (induction depth) simp_all

lemma tags_at_empty: "tags_at Map.empty L = {}"
  by (simp add: tags_at_def)

lemma tags_at_register_at_eq:
  "tags_at (register_at k m tgt) L = tags_at m L \<union> (if tgt = Some L then {set_key k} else {})"
  by (cases tgt) (auto simp: register_at_def tags_at_def)

lemma register_at_None_iff:
  "(register_at k m tgt L = None) = (m L = None \<and> tgt \<noteq> Some L)"
  by (cases tgt) (auto simp: register_at_def)

lemma process_node_tags:
  assumes "process_node cwd m t cfg node = Inr m1"
  shows "tags_at m1 L = tags_at m L \<union> node_tags cwd t cfg node L"
proof -
  let ?k = "dict_get node ''kind'' JNull"
  from assms obtain tgl tb te where
    tgl: "location_target cwd t cfg (dict_get node ''loc'' JNull) ?k = Inr tgl" and
    tb: "location_target cwd t cfg (range_begin (dict_get node ''range'' JNull)) ?k = Inr tb" and
    te: "location_target cwd t cfg (range_end (dict_get node ''range'' JNull)) ?k = Inr te" and
    m1: "m1 = register_at ?k (register_at ?k (register_at ?k m tgl) tb) te"
    by (rule process_node_result)
  have alone: "process_node cwd Map.empty t cfg node
      = Inr (register_at ?k (register_at ?k (register_at ?k Map.empty tgl) tb) te)"
    unfolding process_node_target tgl tb te by simp
  show ?thesis
    unfolding node_tags_def alone m1
    by (simp add: tags_at_register_at_eq tags_at_empty Un_assoc)
qed

lemma process_node_runs:
  assumes "process_node cwd m0 t cfg node = Inr m1"
  shows "\<exists>m2. process_node cwd m t cfg node = Inr m2"
proof -
  let ?k = "dict_get node ''kind'' JNull"
  from assms obtain tgl tb te where
    tgl: "location_target cwd t cfg (dict_get node ''loc'' JNull) ?k = Inr tgl" and
    tb: "location_target cwd t cfg (range_begin (dict_get node ''range'' JNull)) ?k = Inr tb" and
    te: "location_target cwd t cfg (range_end (dict_get node ''range'' JNull)) ?k = Inr te"
    by (rule process_node_result)
  show ?thesis unfolding process_node_target tgl tb te by simp
qed

lemma register_nodes_tags:
  "register_nodes cwd ns m t cfg = Inr m' \<Longrightarrow>
   tags_at m' L = tags_at m L \<union> (\<Union>node\<in>set ns. node_tags cwd t cfg node L)"
proof (induction ns arbitrary: m)
  case Nil
  then show ?case by simp
next
  case (Cons n ns)
  from Cons.prems obtain m1 where m1: "process_node cwd m t cfg n = Inr m1"
    and rest: "register_nodes cwd ns m1 t cfg = Inr m'"
    by (cases "process_node cwd m t cfg n") simp_all
  from Cons.IH [OF rest] process_node_tags [OF m1, of L] show ?case by auto
qed

lemma register_nodes_runs:
  "\<forall>node\<in>set ns. \<exists>m1. process_node cwd Map.empty t cfg node = Inr m1 \<Longrightarrow>
   \<exists>m'. register_nodes cwd ns m t cfg = Inr m'"
proof (induction ns arbitrary: m)
  case Nil
  then show ?case by simp
next
  case (Cons n ns)
  from Cons.prems obtain m0 where "process_node cwd Map.empty t cfg n = Inr m0" by auto
  then obtain m1 where m1: "process_node cwd m t cfg n = Inr m1"
    using process_node_runs by blast
  from Cons.prems have "\<forall>node\<in>set ns. \<exists>m1. process_node cwd Map.empty t cfg node = Inr m1"
    by simp
  from Cons.IH [OF this, of m1] m1 show ?case by simp
qed

lemma node_tags_fields:
  "node_tags cwd t cfg node =
   node_tags cwd t cfg
     [(''kind'', dict_get node ''kind'' JNull),
      (''loc'', dict_get node ''loc'' JNull),
      (''range'', dict_get node ''range'' JNull)]"
  unfolding node_tags_def by (subst process_node_fields) (rule refl)

lemma register_nodes_sound:
  "filter_sound cfg m \<Longrightarrow> register_nodes cwd ns m t cfg = Inr m' \<Longrightarrow> filter_sound cfg m'"
proof (induction ns arbitrary: m)
  case Nil
  then show ?case by simp
next
  case (Cons n ns)
  from Cons.prems(2) obtain m1 where m1: "process_node cwd m t cfg n = Inr m1"
    and rest: "register_nodes cwd ns m1 t cfg = Inr m'"
    by (cases "process_node cwd m t cfg n") simp_all
  from Cons.prems(1) m1 have "filter_sound cfg m1" by (rule process_node_sound)
  from Cons.IH [OF this rest] show ?case .
qed

lemma nodes_of_nested_list: "nodes_of (nested_list n j) = nodes_of j"
  by (induction n) simp_all

section \<open>Claims about locations, ranges, nodes and profiles\<close>

text \<open>
  Claim C2 (range registration). As stated, the kind of a node carrying a range is
  registered at the lines of the range's begin and end only, and at no line between
  them; the code also registers it at the line of the node's own \<open>loc\<close>, which can
  lie between the two. The counterexample is a function whose name is on line 15 of a
  range from line 10 to line 25.
\<close>

theorem range_registration_counterexample:
  "(case process_node ''/'' Map.empty ''/src/a.c'' ''all'' example_function of
      Inl err \<Rightarrow> False
    | Inr m \<Rightarrow> m 15 = Some {JStr ''FunctionDecl''})
   \<and> loc_line (range_begin (dict_get example_function ''range'' JNull)) = Some 10
   \<and> loc_line (range_end (dict_get example_function ''range'' JNull)) = Some 25"
  by code_simp

text \<open>
  Claim C2 as amended: a node registers its kind at no line other than the lines of its
  own location and of the begin and the end of its range, it adds no tag but its kind
  (once: the tags of a line are a set), and after it the registrations of begin and of
  end are both in place, also when end was skipped for being equal to begin.
\<close>

theorem range_registration:
  assumes "process_node cwd m target_file_path filter_config node = Inr m'"
  shows "(\<forall>L. Some L \<notin> {loc_line (dict_get node ''loc'' JNull),
                       loc_line (range_begin (dict_get node ''range'' JNull)),
                       loc_line (range_end (dict_get node ''range'' JNull))}
              \<longrightarrow> m' L = m L)
       \<and> (\<forall>L. tags_at m' L \<subseteq> insert (set_key (dict_get node ''kind'' JNull)) (tags_at m L))
       \<and> process_location cwd m' target_file_path filter_config
            (range_begin (dict_get node ''range'' JNull)) (dict_get node ''kind'' JNull) = Inr m'
       \<and> process_location cwd m' target_file_path filter_config
            (range_end (dict_get node ''range'' JNull)) (dict_get node ''kind'' JNull) = Inr m'"
proof -
  let ?k = "dict_get node ''kind'' JNull"
  let ?l = "dict_get node ''loc'' JNull"
  let ?b = "range_begin (dict_get node ''range'' JNull)"
  let ?e = "range_end (dict_get node ''range'' JNull)"
  from assms obtain tgl tb te where
    tgl: "location_target cwd target_file_path filter_config ?l ?k = Inr tgl" and
    tb: "location_target cwd target_file_path filter_config ?b ?k = Inr tb" and
    te: "location_target cwd target_file_path filter_config ?e ?k = Inr te" and
    m': "m' = register_at ?k (register_at ?k (register_at ?k m tgl) tb) te"
    by (rule process_node_result)
  have lines: "tgl = Some L \<longrightarrow> loc_line ?l = Some L"
      "tb = Some L \<longrightarrow> loc_line ?b = Some L"
      "te = Some L \<longrightarrow> loc_line ?e = Some L" for L
    using tgl tb te by (auto dest: location_target_line)
  have one: "m' L = m L" if "Some L \<notin> {loc_line ?l, loc_line ?b, loc_line ?e}" for L
  proof -
    from that lines [of L] have "Some L \<noteq> tgl" "Some L \<noteq> tb" "Some L \<noteq> te" by auto
    then show ?thesis unfolding m' by (simp add: register_at_other)
  qed
  have two: "tags_at m' L \<subseteq> insert (set_key ?k) (tags_at m L)" for L
  proof -
    have "tags_at m' L \<subseteq> insert (set_key ?k) (tags_at (register_at ?k (register_at ?k m tgl) tb) L)"
      unfolding m' by (rule tags_at_register_at)
    also have "\<dots> \<subseteq> insert (set_key ?k) (insert (set_key ?k) (tags_at (register_at ?k m tgl) L))"
      by (intro insert_mono tags_at_register_at)
    also have "\<dots> \<subseteq> insert (set_key ?k) (insert (set_key ?k) (insert (set_key ?k) (tags_at m L)))"
      by (intro insert_mono tags_at_register_at)
    finally show ?thesis by simp
  qed
  have three: "process_location cwd m' target_file_path filter_config ?b ?k = Inr m'"
    unfolding process_location_target tb m'
    by (simp add: register_at_absorb(1))
  have four: "process_location cwd m' target_file_path filter_config ?e ?k = Inr m'"
    unfolding process_location_target te m'
    by (simp add: register_at_idem)
  from one two three four show ?thesis by blast
qed

theorem range_registration_witness:
  "(case process_node ''/'' Map.empty ''/src/a.c'' ''all'' example_range_node of
      Inl err \<Rightarrow> False
    | Inr m \<Rightarrow> m 10 = Some {JStr ''FunctionDecl''} \<and> m 25 = Some {JStr ''FunctionDecl''}
        \<and> m 17 = None
        \<and> process_location ''/'' m ''/src/a.c'' ''all''
             (range_end (dict_get example_range_node ''range'' JNull))
             (dict_get example_range_node ''kind'' JNull) = Inr m)"
proof -
  let ?run = "process_node ''/'' Map.empty ''/src/a.c'' ''all'' example_range_node"
  have ends: "(case ?run of Inl err \<Rightarrow> False
      | Inr m \<Rightarrow> m 10 = Some {JStr ''FunctionDecl''} \<and> m 25 = Some {JStr ''FunctionDecl''})"
    by code_simp
  then obtain m where m: "?run = Inr m"
    and at: "m 10 = Some {JStr ''FunctionDecl''}" "m 25 = Some {JStr ''FunctionDecl''}"
    by (cases ?run) auto
  have lines: "loc_line (dict_get example_range_node ''loc'' JNull) = None"
    "loc_line (range_begin (dict_get example_range_node ''range'' JNull)) = Some 10"
    "loc_line (range_end (dict_get example_range_node ''range'' JNull)) = Some 25"
    by code_simp+
  from range_registration [OF m]
  have "Some 17 \<notin> {loc_line (dict_get example_range_node ''loc'' JNull),
                    loc_line (range_begin (dict_get example_range_node ''range'' JNull)),
                    loc_line (range_end (dict_get example_range_node ''range'' JNull))}
          \<longrightarrow> m 17 = Map.empty 17"
    and "process_location ''/'' m ''/src/a.c'' ''all''
             (range_end (dict_get example_range_node ''range'' JNull))
             (dict_get example_range_node ''kind'' JNull) = Inr m"
    by blast+
  then show ?thesis using m at by (simp add: lines)
qed

text \<open>
  Claim C6 (location ownership). As stated, a location carrying a file field is
  included only when that field denotes the target file; the code also includes it when
  the field is empty. The counterexample is a location whose file field is the empty
  string.
\<close>

theorem location_ownership_counterexample:
  "(case process_location ''/'' Map.empty ''/src/a.c'' ''all''
           (JObj [(''file'', JStr ''''), (''line'', JInt 3)]) (JStr ''VarDecl'') of
      Inl err \<Rightarrow> False
    | Inr m \<Rightarrow> m 3 = Some {JStr ''VarDecl''})
   \<and> map_of [(''file'', JStr ''''), (''line'', JInt 3)] ''file'' = Some (JStr '''')
   \<and> \<not> spec_denotes_target ''/'' ''/src/a.c'' ''''
   \<and> abspath ''/'' '''' \<noteq> abspath ''/'' ''/src/a.c''"
  by code_simp

text \<open>
  Claim C6 as amended: for a location with a line and a kind the filter accepts, a
  location with no file field, or with an empty one, is included unconditionally; a
  location whose file field is a non-empty string is included if and only if the string
  denotes the target file, by equality of its path (normalised when absolute, as
  written when relative) with the target's absolute path or else by equality of the
  final components; a file field that is neither empty nor a string raises
  \<open>TypeError\<close>.
\<close>

theorem location_ownership:
  assumes "line_of (dict_get d ''line'' JNull) = Some n"
    and "truthy kind"
    and "hashable kind"
    and "should_include_node kind filter_config = Inr True"
  shows "process_location cwd m target_file_path filter_config (JObj d) kind =
     (case map_of d ''file'' of
        None \<Rightarrow> Inr (m(n \<mapsto> insert (set_key kind) (tags_at m n)))
      | Some (JStr f) \<Rightarrow>
          if f = '''' \<or> spec_denotes_target cwd target_file_path f
          then Inr (m(n \<mapsto> insert (set_key kind) (tags_at m n)))
          else Inr m
      | Some v \<Rightarrow>
          if truthy v then Inl TypeError
          else Inr (m(n \<mapsto> insert (set_key kind) (tags_at m n))))"
proof -
  have l: "loc_line (JObj d) = Some n" using assms(1) by (simp add: loc_line_def)
  have a: "admit filter_config kind n = Inr (Some n)"
    using assms(3,4) by (simp add: admit_def)
  show ?thesis
  proof (cases "map_of d ''file''")
    case None
    then have "loc_file (JObj d) = JStr ''''" by (simp add: loc_file_def dict_get_def)
    with None l a assms(2) show ?thesis
      by (simp add: process_location_target location_target_def register_at_def)
  next
    case (Some v)
    then have f: "loc_file (JObj d) = v" by (simp add: loc_file_def dict_get_def)
    show ?thesis
    proof (cases "\<exists>f. v = JStr f")
      case True
      then obtain s where "v = JStr s" by blast
      with Some f l a assms(2) show ?thesis
        by (simp add: process_location_target location_target_def register_at_def)
    next
      case False
      then have "(case v of JStr f \<Rightarrow> g f | _ \<Rightarrow> c) = c" for g :: "string \<Rightarrow> 'a" and c
        by (cases v) simp_all
      with Some f l a assms(2) False show ?thesis
        by (cases v) (simp_all add: process_location_target location_target_def register_at_def)
    qed
  qed
qed

theorem location_ownership_witness:
  "process_location ''/'' Map.empty ''/src/a.c'' ''clean''
      (JObj [(''line'', JInt 3), (''file'', JStr ''a.c'')]) (JStr ''VarDecl'')
     = Inr [3 \<mapsto> {JStr ''VarDecl''}]
   \<and> process_location ''/'' Map.empty ''/src/a.c'' ''clean''
      (JObj [(''line'', JInt 3), (''file'', JStr ''/usr/include/stdio.h'')]) (JStr ''VarDecl'')
     = Inr Map.empty
   \<and> process_location ''/'' Map.empty ''/src/a.c'' ''clean''
      (JObj [(''line'', JInt 3)]) (JStr ''VarDecl'')
     = Inr [3 \<mapsto> {JStr ''VarDecl''}]"
proof -
  have inc: "should_include_node (JStr ''VarDecl'') ''clean'' = Inr True" by code_simp
  have own: "spec_denotes_target ''/'' ''/src/a.c'' ''a.c''"
    and other: "\<not> spec_denotes_target ''/'' ''/src/a.c'' ''/usr/include/stdio.h''"
    by code_simp+
  have l: "line_of (dict_get d ''line'' JNull) = Some 3"
    if "map_of d ''line'' = Some (JInt 3)" for d
    using that by (simp add: dict_get_def)
  have "process_location ''/'' Map.empty ''/src/a.c'' ''clean''
      (JObj [(''line'', JInt 3), (''file'', JStr ''a.c'')]) (JStr ''VarDecl'')
     = Inr [3 \<mapsto> {JStr ''VarDecl''}]"
    by (subst location_ownership [where n = 3]) (simp_all add: l inc own tags_at_def)
  moreover have "process_location ''/'' Map.empty ''/src/a.c'' ''clean''
      (JObj [(''line'', JInt 3), (''file'', JStr ''/usr/include/stdio.h'')]) (JStr ''VarDecl'')
     = Inr Map.empty"
    by (subst location_ownership [where n = 3]) (simp_all add: l inc other tags_at_def)
  moreover have "process_location ''/'' Map.empty ''/src/a.c'' ''clean''
      (JObj [(''line'', JInt 3)]) (JStr ''VarDecl'')
     = Inr [3 \<mapsto> {JStr ''VarDecl''}]"
    by (subst location_ownership [where n = 3]) (simp_all add: l inc tags_at_def)
  ultimately show ?thesis by blast
qed

text \<open>
  Claim C1 (filter soundness). Whatever the tree, the target file, the profile and the
  depth the interpreter allows, every tag the returned line map holds at any line is
  accepted by the profile's predicate.
\<close>

theorem filter_soundness:
  assumes "collect_line_annotations cwd depth tree Map.empty target_file_path filter_config
             = Inr line_map"
    and "line_map L = Some tags"
    and "tag \<in> tags"
  shows "should_include_node tag filter_config = Inr True"
proof -
  have "filter_sound filter_config Map.empty" by (simp add: filter_sound_def)
  moreover from assms(1) collect_returns(1)
  have "register_nodes cwd (nodes_of tree) Map.empty target_file_path filter_config = Inr line_map"
    by blast
  ultimately have "filter_sound filter_config line_map" by (rule register_nodes_sound)
  with assms(2,3) show ?thesis unfolding filter_sound_def by blast
qed

theorem filter_soundness_witness:
  "should_include_node (JStr ''VarDecl'') ''clean'' = Inr True
   \<and> (case collect_line_annotations ''/'' 1000 example_tree Map.empty ''/src/a.c'' ''clean'' of
         Inl err \<Rightarrow> False
       | Inr m \<Rightarrow> m 12 = Some {JStr ''VarDecl''})"
proof -
  let ?run = "collect_line_annotations ''/'' 1000 example_tree Map.empty ''/src/a.c'' ''clean''"
  have run: "(case ?run of Inl err \<Rightarrow> False | Inr m \<Rightarrow> m 12 = Some {JStr ''VarDecl''})"
    by code_simp
  then obtain m where m: "?run = Inr m" and at: "m 12 = Some {JStr ''VarDecl''}"
    by (cases ?run) auto
  have "should_include_node (JStr ''VarDecl'') ''clean'' = Inr True"
    by (rule filter_soundness [OF m at]) simp
  with run show ?thesis by simp
qed

text \<open>
  Claim C7 (filtering is per node). As stated, for every input tree the traversal
  reaches every nested node and whether a node's kind is registered depends on that
  node alone; the code recurses one call per level of nesting, so a tree nested deeper
  than the interpreter's recursion limit raises \<open>RecursionError\<close> and registers nothing.
  The counterexample is a variable declaration, which registers when it is the whole
  document, under 1001 nested lists with all 1000 frames of the default limit free.
\<close>

theorem per_node_filtering_counterexample:
  "(case collect_line_annotations ''/'' 1000 (nested_list (Suc 1000) (JObj example_leaf))
           Map.empty ''/src/a.c'' ''all'' of
      Inl err \<Rightarrow> err = RecursionError
    | Inr m \<Rightarrow> False)
   \<and> example_leaf \<in> set (nodes_of (nested_list (Suc 1000) (JObj example_leaf)))
   \<and> node_tags ''/'' ''/src/a.c'' ''all'' example_leaf 12 = {JStr ''VarDecl''}
   \<and> (case collect_line_annotations ''/'' 1000 (JObj example_leaf) Map.empty ''/src/a.c'' ''all'' of
        Inl err \<Rightarrow> False
      | Inr m \<Rightarrow> m 12 = Some {JStr ''VarDecl''})"
proof -
  have "collect_line_annotations ''/'' 1000 (nested_list (Suc 1000) (JObj example_leaf))
           Map.empty ''/src/a.c'' ''all'' = Inl RecursionError"
    by (rule collect_too_deep)
  moreover have "example_leaf \<in> set (nodes_of (nested_list (Suc 1000) (JObj example_leaf)))"
    by (simp only: nodes_of_nested_list) simp
  moreover have "node_tags ''/'' ''/src/a.c'' ''all'' example_leaf 12 = {JStr ''VarDecl''}"
    by code_simp
  moreover have "(case collect_line_annotations ''/'' 1000 (JObj example_leaf) Map.empty
        ''/src/a.c'' ''all'' of Inl err \<Rightarrow> False | Inr m \<Rightarrow> m 12 = Some {JStr ''VarDecl''})"
    by code_simp
  ultimately show ?thesis by simp
qed

text \<open>
  Claim C7 as amended: for every input tree on which the traversal returns a line map
  (it raises no exception; it returns whenever the nesting is within the depth the
  interpreter allows and no node raises when processed alone), the tags of every line
  are those the map held before together with, for every dictionary nested anywhere in
  the tree (dictionaries by value, lists by element), the tags that node registers
  alone, which are a function of that node's own \<open>kind\<close>, \<open>loc\<close> and \<open>range\<close>, the
  target file and the profile; so a node contributes whether or not the nodes above it
  were registered or have a kind.
\<close>

theorem per_node_filtering:
  "(nesting tree \<le> depth
      \<and> (\<forall>node\<in>set (nodes_of tree).
            \<exists>m1. process_node cwd Map.empty target_file_path filter_config node = Inr m1)
      \<longrightarrow> (\<exists>m'. collect_line_annotations cwd depth tree m target_file_path filter_config = Inr m'))
   \<and> (\<forall>m'. collect_line_annotations cwd depth tree m target_file_path filter_config = Inr m'
        \<longrightarrow> (\<forall>L. tags_at m' L =
                  tags_at m L \<union>
                  (\<Union>node\<in>set (nodes_of tree).
                      node_tags cwd target_file_path filter_config node L)))
   \<and> (\<forall>node.
        node_tags cwd target_file_path filter_config node =
        node_tags cwd target_file_path filter_config
          [(''kind'', dict_get node ''kind'' JNull),
           (''loc'', dict_get node ''loc'' JNull),
           (''range'', dict_get node ''range'' JNull)])"
proof (intro conjI impI allI)
  assume a: "nesting tree \<le> depth
      \<and> (\<forall>node\<in>set (nodes_of tree).
            \<exists>m1. process_node cwd Map.empty target_file_path filter_config node = Inr m1)"
  then have "collect_line_annotations cwd depth tree m target_file_path filter_config
      = register_nodes cwd (nodes_of tree) m target_file_path filter_config"
    using collect_enough_depth(1) by blast
  moreover from a have "\<exists>m'. register_nodes cwd (nodes_of tree) m target_file_path filter_config
      = Inr m'"
    by (intro register_nodes_runs) simp
  ultimately show "\<exists>m'. collect_line_annotations cwd depth tree m target_file_path filter_config
      = Inr m'" by simp
next
  fix m' L
  assume "collect_line_annotations cwd depth tree m target_file_path filter_config = Inr m'"
  with collect_returns(1)
  have "register_nodes cwd (nodes_of tree) m target_file_path filter_config = Inr m'" by blast
  then show "tags_at m' L = tags_at m L \<union>
      (\<Union>node\<in>set (nodes_of tree). node_tags cwd target_file_path filter_config node L)"
    by (rule register_nodes_tags)
next
  fix node
  show "node_tags cwd target_file_path filter_config node =
        node_tags cwd target_file_path filter_config
          [(''kind'', dict_get node ''kind'' JNull),
           (''loc'', dict_get node ''loc'' JNull),
           (''range'', dict_get node ''range'' JNull)]"
    by (rule node_tags_fields)
qed

theorem per_node_filtering_witness:
  "(case collect_line_annotations ''/'' 1000 example_tree Map.empty ''/src/a.c'' ''clean'' of
      Inl err \<Rightarrow> False
    | Inr m \<Rightarrow> m 11 = None \<and> m 12 = Some {JStr ''VarDecl''}
        \<and> tags_at m 12 =
            (\<Union>node\<in>set (nodes_of example_tree). node_tags ''/'' ''/src/a.c'' ''clean'' node 12))
   \<and> nesting example_tree \<le> 1000
   \<and> should_include_node (JStr ''ParenExpr'') ''clean'' = Inr False"
proof -
  let ?run = "collect_line_annotations ''/'' 1000 example_tree Map.empty ''/src/a.c'' ''clean''"
  have run: "(case ?run of Inl err \<Rightarrow> False
      | Inr m \<Rightarrow> m 11 = None \<and> m 12 = Some {JStr ''VarDecl''})"
    by code_simp
  then obtain m where m: "?run = Inr m"
    and at: "m 11 = None" "m 12 = Some {JStr ''VarDecl''}"
    by (cases ?run) auto
  from per_node_filtering [of example_tree 1000 "''/''" "''/src/a.c''" "''clean''" Map.empty] m
  have "tags_at m 12 = tags_at Map.empty 12 \<union>
      (\<Union>node\<in>set (nodes_of example_tree). node_tags ''/'' ''/src/a.c'' ''clean'' node 12)"
    by blast
  then have u: "tags_at m 12 =
      (\<Union>node\<in>set (nodes_of example_tree). node_tags ''/'' ''/src/a.c'' ''clean'' node 12)"
    by (simp add: tags_at_empty)
  have rest: "nesting example_tree \<le> 1000"
    "should_include_node (JStr ''ParenExpr'') ''clean'' = Inr False"
    by code_simp+
  from m at u rest show ?thesis by simp
qed

text \<open>
  Claim C10 (unknown profile names). With a profile name other than "minimal", "clean",
  "declarations" and "statements", the predicate accepts every kind, as it does with
  "all".
\<close>

theorem unknown_profile_admits_all:
  assumes "filter_config \<notin> {''minimal'', ''clean'', ''declarations'', ''statements''}"
  shows "should_include_node kind filter_config = Inr True
       \<and> should_include_node kind filter_config = should_include_node kind ''all''"
proof -
  from assms have ne: "(filter_config = ''minimal'') = False"
    "(filter_config = ''clean'') = False"
    "(filter_config = ''declarations'') = False"
    "(filter_config = ''statements'') = False"
    by blast+
  have one: "should_include_node kind filter_config = Inr True"
    unfolding should_include_node_def by (simp only: ne if_False)
  have "should_include_node kind ''all'' = Inr True" by code_simp
  with one show ?thesis by simp
qed

theorem unknown_profile_admits_all_witness:
  "should_include_node (JStr ''ParenExpr'') ''minmal'' = Inr True
   \<and> should_include_node (JStr ''ParenExpr'') '''' = Inr True
   \<and> should_include_node (JArr [JInt 1]) ''Clean'' = Inr True"
proof -
  have h1: "''minmal'' \<notin> {''minimal'', ''clean'', ''declarations'', ''statements''}"
    and h2: "'''' \<notin> {''minimal'', ''clean'', ''declarations'', ''statements''}"
    and h3: "''Clean'' \<notin> {''minimal'', ''clean'', ''declarations'', ''statements''}"
    by simp_all
  have a: "should_include_node (JStr ''ParenExpr'') ''minmal'' = Inr True"
    using unknown_profile_admits_all [OF h1] by (rule conjunct1)
  have b: "should_include_node (JStr ''ParenExpr'') '''' = Inr True"
    using unknown_profile_admits_all [OF h2] by (rule conjunct1)
  have c: "should_include_node (JArr [JInt 1]) ''Clean'' = Inr True"
    using unknown_profile_admits_all [OF h3] by (rule conjunct1)
  show ?thesis by (intro conjI a b c)
qed

end
